theory Spec2Isabelle
  imports Complex_Main "HOL-Library.Multiset"
begin

section \<open>Data model (src/src/decks.ts, src/src/gameState.ts)\<close>

text \<open>
  A \<open>Card\<close> is the interface of decks.ts. Optional numbers and strings are options
  (\<open>None\<close> is \<open>undefined\<close>); the optional boolean flags are only ever tested for
  truthiness, so an absent flag is \<open>False\<close>. JavaScript numbers are integers here: every
  number of the engine is a counter, an index or a sum of catalogue integers.
\<close>

record Card =
  id' :: string
  name :: string
  hp :: "int option"
  maxHp :: "int option"
  attackName :: "string option"
  attackDamage :: "int option"
  evolvesFrom :: "string option"
  evolvesFromBasic :: "string option"
  isBasic :: bool
  isEx :: bool
  isTrainer :: bool
  isSupporter :: bool
  isItem :: bool
  rule' :: "string option"
  turnPlaced :: "int option"
  uid :: "string option"

text \<open>
  Card instances are JavaScript objects: the zones of a player hold references to them and
  the engine mutates them in place (\<open>hp\<close>, \<open>turnPlaced\<close>). A reference is the number of
  the allocation: \<open>createCard\<close> is the only allocator and numbers its objects with
  \<open>cardUidCounter\<close>.
\<close>

type_synonym ref = nat

datatype PlayerId = P1 | P2

datatype Phase = Setup | Playing

record PlayerState =
  deck :: "ref list"
  hand :: "ref list"
  active :: "ref option"
  bench :: "ref option list"
  points :: int
  hasPlayedSupporter :: bool

text \<open>The events handed to \<open>eventBus.dispatchEvent\<close>, by type and detail.\<close>

datatype Event = GameInitialized | GameStateUpdated | TurnStarted PlayerId | GameEnded PlayerId

datatype error = CardNotFound string

text \<open>
  The fields of class \<open>GameState\<close>, followed by what the module keeps outside the class:
  the card objects, the counter \<open>cardUidCounter\<close>, the events dispatched so far (oldest
  first) and the source of \<open>Math.random\<close>, a tape of samples with the position of the next
  one.
\<close>

record World =
  phase :: Phase
  currentPlayer :: PlayerId
  gameOver :: bool
  winner :: "PlayerId option"
  turnCount :: int
  setupReady :: "PlayerId \<Rightarrow> bool"
  players :: "PlayerId \<Rightarrow> PlayerState"
  heap :: "ref \<Rightarrow> Card"
  cardUidCounter :: nat
  dispatched :: "Event list"
  randomTape :: "nat \<Rightarrow> rat"
  randomPos :: nat

section \<open>JavaScript arrays\<close>

text \<open>\<open>xs[i]\<close>: \<open>None\<close> is \<open>undefined\<close>.\<close>

definition at_index :: "'a list \<Rightarrow> int \<Rightarrow> 'a option" where
  "at_index xs i = (if 0 \<le> i \<and> i < int (length xs) then Some (xs ! nat i) else None)"

text \<open>
  \<open>xs.splice(start, deleteCount, ...items)\<close>: a negative \<open>start\<close> counts from the end,
  both are clamped to the array. The result is the removed elements and the array left.
\<close>

definition splice_start :: "int \<Rightarrow> nat \<Rightarrow> nat" where
  "splice_start start len = (if start < 0 then nat (max (int len + start) 0) else min (nat start) len)"

definition splice :: "'a list \<Rightarrow> int \<Rightarrow> nat \<Rightarrow> 'a list \<Rightarrow> 'a list \<times> 'a list" where
  "splice xs start deleteCount items =
     (let k = splice_start start (length xs);
          d = min deleteCount (length xs - k)
      in (take d (drop k xs), take k xs @ items @ drop (k + d) xs))"

text \<open>\<open>xs.splice(start)\<close>: everything from \<open>start\<close> on.\<close>

definition splice_rest :: "'a list \<Rightarrow> int \<Rightarrow> 'a list \<times> 'a list" where
  "splice_rest xs start = splice xs start (length xs) []"

text \<open>\<open>xs.findIndex((c, i) => P c i)\<close>, counting from \<open>k\<close>; \<open>None\<close> is the result -1.\<close>

fun findIndex :: "('a \<Rightarrow> nat \<Rightarrow> bool) \<Rightarrow> nat \<Rightarrow> 'a list \<Rightarrow> nat option" where
  "findIndex P k [] = None"
| "findIndex P k (x # xs) = (if P x k then Some k else findIndex P (Suc k) xs)"

text \<open>\<open>xs.indexOf(v)\<close>.\<close>

definition indexOf :: "'a list \<Rightarrow> 'a \<Rightarrow> nat option" where
  "indexOf xs v = findIndex (\<lambda>x i. x = v) 0 xs"

text \<open>\<open>a ?? 0\<close> and \<open>a || 0\<close> on an optional number.\<close>

definition orZero :: "int option \<Rightarrow> int" where
  "orZero a = (case a of None \<Rightarrow> 0 | Some v \<Rightarrow> v)"

section \<open>Utility functions\<close>

text \<open>\<open>String(n)\<close> of a counter: its decimal digits.\<close>

fun String_of :: "nat \<Rightarrow> string" where
  "String_of n = (if n < 10 then [char_of (48 + n)] else String_of (n div 10) @ [char_of (48 + n mod 10)])"

declare String_of.simps [simp del]

text \<open>The catalogue \<open>CARD_DATA\<close> and the deck list \<open>DECK_CONFIGS[0]\<close> of decks.ts.\<close>

definition blank :: Card where
  "blank = \<lparr> id' = [], name = [], hp = None, maxHp = None, attackName = None, attackDamage = None,
     evolvesFrom = None, evolvesFromBasic = None, isBasic = False, isEx = False, isTrainer = False,
     isSupporter = False, isItem = False, rule' = None, turnPlaced = None, uid = None \<rparr>"

definition CARD_DATA :: "string \<Rightarrow> Card option" where
  "CARD_DATA k =
    (if k = ''base-001'' then Some (blank\<lparr> name := ''Axolittle'', hp := Some 60, attackName := Some ''Boink'', attackDamage := Some 20, isBasic := True \<rparr>)
     else if k = ''base-002'' then Some (blank\<lparr> name := ''Axolora'', hp := Some 90, attackName := Some ''Wand Splash'', attackDamage := Some 40, evolvesFrom := Some ''base-001'' \<rparr>)
     else if k = ''base-003'' then Some (blank\<lparr> name := ''Lazycat'', hp := Some 60, attackName := Some ''Yawn'', attackDamage := Some 20, isBasic := True \<rparr>)
     else if k = ''base-004'' then Some (blank\<lparr> name := ''Guard Cat'', hp := Some 100, attackName := Some ''Spine Arch'', attackDamage := Some 40, evolvesFrom := Some ''base-003'' \<rparr>)
     else if k = ''base-005'' then Some (blank\<lparr> name := ''MC Scratchinator'', hp := Some 180, attackName := Some ''Vinyl Scratch'', attackDamage := Some 120, evolvesFrom := Some ''base-004'', evolvesFromBasic := Some ''base-003'', isEx := True \<rparr>)
     else if k = ''base-006'' then Some (blank\<lparr> name := ''Panda's Plan'', rule' := Some ''Draw 2 cards.'', isTrainer := True, isSupporter := True \<rparr>)
     else if k = ''base-007'' then Some (blank\<lparr> name := ''Coach Whistle'', rule' := Some ''Draw one random basic Buddy.'', isTrainer := True, isItem := True \<rparr>)
     else if k = ''base-008'' then Some (blank\<lparr> name := ''Chicken Nugget'', rule' := Some ''Evolve a basic Buddy to stage 2.'', isTrainer := True, isItem := True \<rparr>)
     else None)"

definition DECK_CONFIG_0 :: "(string \<times> nat) list" where
  "DECK_CONFIG_0 =
    [(''base-001'', 3), (''base-002'', 3), (''base-003'', 3), (''base-004'', 2),
     (''base-005'', 2), (''base-006'', 3), (''base-007'', 2), (''base-008'', 2)]"

text \<open>
  \<open>createCard\<close>: throws on an unknown id; otherwise a new object, a copy of the template
  with \<open>id\<close>, \<open>hp\<close>, \<open>maxHp\<close> and \<open>uid\<close> set, and the counter moves on. The
  catalogue is looked up by its own eight keys: the keys an object literal inherits (such as
  \<open>constructor\<close>), for which \<open>CARD_DATA[id]\<close> is not undefined in JavaScript, count as unknown
  here. The engine calls \<open>createCard\<close> with the ids of \<open>DECK_CONFIGS[0]\<close> only.
\<close>

definition createCard :: "string \<Rightarrow> World \<Rightarrow> error + (ref \<times> World)" where
  "createCard k w =
     (case CARD_DATA k of
        None \<Rightarrow> Inl (CardNotFound k)
      | Some template \<Rightarrow>
          (let n = cardUidCounter w;
               c = template\<lparr> id' := k, hp := hp template, maxHp := hp template, uid := Some (String_of n) \<rparr>
           in Inr (n, w\<lparr> heap := (heap w)(n := c), cardUidCounter := n + 1 \<rparr>)))"

text \<open>
  \<open>Math.random()\<close> reads the next sample of the tape. \<open>Math.floor(Math.random() * n)\<close>
  is \<open>randomIndex n\<close>; the product is taken exactly (floating point rounding is not
  modelled).
\<close>

definition Math_random :: "World \<Rightarrow> rat \<times> World" where
  "Math_random w = (randomTape w (randomPos w), w\<lparr> randomPos := randomPos w + 1 \<rparr>)"

definition randomIndex :: "nat \<Rightarrow> World \<Rightarrow> nat \<times> World" where
  "randomIndex n w = (let (u, w') = Math_random w in (nat \<lfloor>u * of_nat n\<rfloor>, w'))"

text \<open>
  \<open>shuffle\<close>: the loop \<open>for (i = length - 1; i > 0; i--)\<close> swaps \<open>shuffled[i]\<close> with
  \<open>shuffled[j]\<close>, \<open>j\<close> drawn below \<open>i + 1\<close>. \<open>shuffle_from i\<close> is the loop from \<open>i\<close> down.
\<close>

fun shuffle_from :: "nat \<Rightarrow> 'a list \<Rightarrow> World \<Rightarrow> 'a list \<times> World" where
  "shuffle_from 0 xs w = (xs, w)"
| "shuffle_from (Suc n) xs w =
     (let (j, w') = randomIndex (Suc n + 1) w
      in shuffle_from n (xs[Suc n := xs ! j, j := xs ! Suc n]) w')"

definition shuffle :: "'a list \<Rightarrow> World \<Rightarrow> 'a list \<times> World" where
  "shuffle xs w = shuffle_from (length xs - 1) xs w"

text \<open>\<open>Array(count).fill(null).map(() => createCard(id))\<close>, and \<open>flatMap\<close> over the deck list.\<close>

fun createCopies :: "string \<Rightarrow> nat \<Rightarrow> World \<Rightarrow> error + (ref list \<times> World)" where
  "createCopies k 0 w = Inr ([], w)"
| "createCopies k (Suc n) w =
     (case createCard k w of
        Inl e \<Rightarrow> Inl e
      | Inr (r, w') \<Rightarrow>
          (case createCopies k n w' of
             Inl e \<Rightarrow> Inl e
           | Inr (rs, w'') \<Rightarrow> Inr (r # rs, w'')))"

fun createAll :: "(string \<times> nat) list \<Rightarrow> World \<Rightarrow> error + (ref list \<times> World)" where
  "createAll [] w = Inr ([], w)"
| "createAll ((k, n) # cfg) w =
     (case createCopies k n w of
        Inl e \<Rightarrow> Inl e
      | Inr (rs, w') \<Rightarrow>
          (case createAll cfg w' of
             Inl e \<Rightarrow> Inl e
           | Inr (rs', w'') \<Rightarrow> Inr (rs @ rs', w'')))"

definition createDeck :: "(string \<times> nat) list \<Rightarrow> World \<Rightarrow> error + (ref list \<times> World)" where
  "createDeck deckConfig w =
     (case createAll deckConfig w of
        Inl e \<Rightarrow> Inl e
      | Inr (d, w') \<Rightarrow> Inr (shuffle d w'))"

section \<open>The class GameState (src/src/gameState.ts)\<close>

text \<open>The constructor; what lives outside the class is given.\<close>

definition createPlayerState :: PlayerState where
  "createPlayerState = \<lparr> deck = [], hand = [], active = None, bench = replicate 3 None,
     points = 0, hasPlayedSupporter = False \<rparr>"

definition newGameState :: "(ref \<Rightarrow> Card) \<Rightarrow> nat \<Rightarrow> Event list \<Rightarrow> (nat \<Rightarrow> rat) \<Rightarrow> nat \<Rightarrow> World" where
  "newGameState h n evs tape pos =
     \<lparr> phase = Setup, currentPlayer = P1, gameOver = False, winner = None, turnCount = 0,
       setupReady = (\<lambda>_. False), players = (\<lambda>_. createPlayerState),
       heap = h, cardUidCounter = n, dispatched = evs, randomTape = tape, randomPos = pos \<rparr>"

definition getOpponentId :: "PlayerId \<Rightarrow> PlayerId" where
  "getOpponentId i = (if i = P1 then P2 else P1)"

definition canAct :: "PlayerId \<Rightarrow> World \<Rightarrow> bool" where
  "canAct player w = (player = currentPlayer w \<and> phase w = Playing \<and> \<not> gameOver w)"

definition notify :: "Event \<Rightarrow> World \<Rightarrow> World" where
  "notify ev w = w\<lparr> dispatched := dispatched w @ [ev] \<rparr>"

definition update :: "World \<Rightarrow> World" where
  "update w = notify GameStateUpdated w"

text \<open>A write to the fields of \<open>this.players[i]\<close>.\<close>

definition setPlayer :: "PlayerId \<Rightarrow> PlayerState \<Rightarrow> World \<Rightarrow> World" where
  "setPlayer i p w = w\<lparr> players := (players w)(i := p) \<rparr>"

definition drawCards :: "PlayerId \<Rightarrow> nat \<Rightarrow> World \<Rightarrow> World" where
  "drawCards player cnt w =
     (let p = players w player;
          (drawn, rest) = splice_rest (deck p) (- int cnt)
      in setPlayer player (p\<lparr> deck := rest, hand := hand p @ drawn \<rparr>) w)"

text \<open>
  \<open>drawInitialHands\<close>: \<open>redeal\<close> is the body of the do-while loop of one player,
  \<open>drawInitialHand\<close> the loop. The loop has no bound; where it does not end the result is
  \<open>None\<close>.
\<close>

definition redeal :: "PlayerId \<Rightarrow> World \<Rightarrow> World" where
  "redeal pNum w =
     (let p = players w pNum;
          w1 = setPlayer pNum (p\<lparr> deck := deck p @ hand p, hand := [] \<rparr>) w;
          (d, w2) = shuffle (deck (players w1 pNum)) w1;
          w3 = setPlayer pNum ((players w2 pNum)\<lparr> deck := d \<rparr>) w2
      in drawCards pNum 5 w3)"

definition someBasic :: "PlayerId \<Rightarrow> World \<Rightarrow> bool" where
  "someBasic pNum w = list_ex (\<lambda>c. isBasic (heap w c)) (hand (players w pNum))"

partial_function (option) drawInitialHand :: "PlayerId \<Rightarrow> World \<Rightarrow> World option" where
  "drawInitialHand pNum w =
     (if \<not> someBasic pNum (redeal pNum w) then drawInitialHand pNum (redeal pNum w)
      else Some (redeal pNum w))"

definition drawInitialHands :: "World \<Rightarrow> World option" where
  "drawInitialHands w =
     (case drawInitialHand P1 w of
        None \<Rightarrow> None
      | Some w' \<Rightarrow> drawInitialHand P2 w')"

text \<open>
  \<open>initializeGame\<close>: \<open>None\<close> when a loop of \<open>drawInitialHands\<close> does not end, \<open>Inl\<close> when
  \<open>createCard\<close> throws.
\<close>

definition initializeGame :: "World \<Rightarrow> (error + World) option" where
  "initializeGame w =
     (case createDeck DECK_CONFIG_0 w of
        Inl e \<Rightarrow> Some (Inl e)
      | Inr (d1, w1) \<Rightarrow>
          (case createDeck DECK_CONFIG_0 (setPlayer P1 ((players w1 P1)\<lparr> deck := d1 \<rparr>) w1) of
             Inl e \<Rightarrow> Some (Inl e)
           | Inr (d2, w2) \<Rightarrow>
               (case drawInitialHands (setPlayer P2 ((players w2 P2)\<lparr> deck := d2 \<rparr>) w2) of
                  None \<Rightarrow> None
                | Some w3 \<Rightarrow> Some (Inr (notify GameInitialized w3)))))"

definition startTurn :: "PlayerId \<Rightarrow> World \<Rightarrow> World" where
  "startTurn player w =
     (let w1 = w\<lparr> currentPlayer := player, turnCount := turnCount w + 1 \<rparr>;
          w2 = setPlayer (currentPlayer w1)
                 ((players w1 (currentPlayer w1))\<lparr> hasPlayedSupporter := False \<rparr>) w1;
          w3 = (if turnCount w2 > 1 then drawCards player 1 w2 else w2)
      in update (notify (TurnStarted player) w3))"

definition setPlayerReady :: "PlayerId \<Rightarrow> World \<Rightarrow> World" where
  "setPlayerReady player w =
     (if phase w \<noteq> Setup \<or> active (players w player) = None then w
      else (let w1 = w\<lparr> setupReady := (setupReady w)(player := True) \<rparr>
            in if setupReady w1 P1 \<and> setupReady w1 P2
               then startTurn P1 (w1\<lparr> phase := Playing \<rparr>)
               else update w1))"

definition endTurn :: "World \<Rightarrow> World" where
  "endTurn w = (if gameOver w then w else startTurn (getOpponentId (currentPlayer w)) w)"

definition endGame :: "PlayerId \<Rightarrow> World \<Rightarrow> World" where
  "endGame winnerId w = notify (GameEnded winnerId) (w\<lparr> gameOver := True, winner := Some winnerId \<rparr>)"

text \<open>
  The private methods \<open>_playSupporter\<close>, \<open>_playCoachWhistle\<close>, \<open>_playBasic\<close> and
  \<open>_performEvolution\<close>. Their parameter \<open>p\<close> is the object \<open>this.players[player]\<close> of
  the caller, here the player's id.
\<close>

definition playSupporter :: "PlayerId \<Rightarrow> int \<Rightarrow> World \<Rightarrow> bool \<times> World" where
  "playSupporter player handIndex w =
     (if phase w = Setup \<or> hasPlayedSupporter (players w player) then (False, w)
      else (let w1 = drawCards (currentPlayer w) 2 w;
                p = players w1 player;
                (removed, rest) = splice (hand p) handIndex 1 []
            in (True, setPlayer player (p\<lparr> hand := rest, hasPlayedSupporter := True \<rparr>) w1)))"

definition basicIndices :: "World \<Rightarrow> ref list \<Rightarrow> nat list" where
  "basicIndices w d = filter (\<lambda>i. isBasic (heap w (d ! i))) [0..<length d]"

definition playCoachWhistle :: "PlayerId \<Rightarrow> int \<Rightarrow> World \<Rightarrow> bool \<times> World" where
  "playCoachWhistle player handIndex w =
     (if phase w = Setup then (False, w)
      else (let p = players w player;
                (removed, hand1) = splice (hand p) handIndex 1 [];
                idxs = basicIndices w (deck p);
                (hand2, deck2, w2) =
                  (if length idxs > 0
                   then (let (k, w') = randomIndex (length idxs) w;
                             (drawn, rest) = splice (deck p) (int (idxs ! k)) 1 []
                         in (hand1 @ drawn, rest, w'))
                   else (hand1, deck p, w));
                (d, w3) = shuffle deck2 w2
            in (True, setPlayer player (p\<lparr> hand := hand2, deck := d \<rparr>) w3)))"

text \<open>
  \<open>_playBasic\<close> is called by \<open>playCard\<close> only, with the index of a card of the hand, so
  \<open>splice\<close> removes one card; the first case below does not occur.
\<close>

definition playBasic :: "PlayerId \<Rightarrow> int \<Rightarrow> World \<Rightarrow> bool \<times> World" where
  "playBasic player handIndex w =
     (let p = players w player;
          (removed, rest) = splice (hand p) handIndex 1 []
      in case removed of
           [] \<Rightarrow> (False, w)
         | cardToPlay # _ \<Rightarrow>
             (let w1 = w\<lparr> heap := (heap w)(cardToPlay := (heap w cardToPlay)\<lparr> turnPlaced := Some (turnCount w) \<rparr>) \<rparr>
              in if active p = None
                 then (True, setPlayer player (p\<lparr> hand := rest, active := Some cardToPlay \<rparr>) w1)
                 else (case indexOf (bench p) None of
                         None \<Rightarrow>
                           (False, setPlayer player (p\<lparr> hand := snd (splice rest handIndex 0 [cardToPlay]) \<rparr>) w1)
                       | Some benchIdx \<Rightarrow>
                           (True, setPlayer player
                              (p\<lparr> hand := rest, bench := (bench p)[benchIdx := Some cardToPlay] \<rparr>) w1))))"

text \<open>
  \<open>xs[i] = v\<close> for an index the caller has read a card at; an index outside the array does
  not occur.
\<close>

definition set_index :: "'a list \<Rightarrow> int \<Rightarrow> 'a \<Rightarrow> 'a list" where
  "set_index xs i v = (if 0 \<le> i \<and> i < int (length xs) then xs[nat i := v] else xs)"

definition performEvolution :: "PlayerId \<Rightarrow> ref \<Rightarrow> ref \<Rightarrow> int \<Rightarrow> World \<Rightarrow> World" where
  "performEvolution player evolvedCard targetCard targetBoardIndex w =
     (let damage = orZero (maxHp (heap w targetCard)) - orZero (hp (heap w targetCard));
          e = heap w evolvedCard;
          w1 = w\<lparr> heap := (heap w)(evolvedCard :=
                 e\<lparr> hp := Some (orZero (maxHp e) - damage), turnPlaced := Some (turnCount w) \<rparr>) \<rparr>;
          p = players w1 player;
          w2 = (if targetBoardIndex = - 1
                then setPlayer player (p\<lparr> active := Some evolvedCard \<rparr>) w1
                else setPlayer player (p\<lparr> bench := set_index (bench p) targetBoardIndex (Some evolvedCard) \<rparr>) w1)
      in update w2)"

text \<open>\<open>bench[i]\<close> as a condition or a card: \<open>None\<close> is null (an empty slot) or undefined.\<close>

definition boardSlot :: "ref option list \<Rightarrow> int \<Rightarrow> ref option" where
  "boardSlot b i = (case at_index b i of Some (Some r) \<Rightarrow> Some r | _ \<Rightarrow> None)"

text \<open>\<open>targetBoardIndex === -1 ? p.active : p.bench[targetBoardIndex]\<close>.\<close>

definition boardCard :: "PlayerState \<Rightarrow> int \<Rightarrow> ref option" where
  "boardCard p i = (if i = - 1 then active p else boardSlot (bench p) i)"

definition playCard :: "PlayerId \<Rightarrow> int \<Rightarrow> World \<Rightarrow> World" where
  "playCard player handIndex w =
     (if gameOver w \<or> (phase w = Playing \<and> currentPlayer w \<noteq> player) then w
      else (case at_index (hand (players w player)) handIndex of
              None \<Rightarrow> w
            | Some c \<Rightarrow>
                (let card = heap w c;
                     (cardWasPlayed, w') =
                       (if isSupporter card then playSupporter player handIndex w
                        else if id' card = ''base-007'' then playCoachWhistle player handIndex w
                        else if id' card = ''base-008'' then (False, w)
                        else if isBasic card then playBasic player handIndex w
                        else (False, w))
                 in if cardWasPlayed then update w' else w')))"

definition playChickenNugget :: "PlayerId \<Rightarrow> int \<Rightarrow> int \<Rightarrow> World \<Rightarrow> bool \<times> World" where
  "playChickenNugget player handIndex targetBoardIndex w =
     (let p = players w player
      in case boardCard p targetBoardIndex of
           None \<Rightarrow> (False, w)
         | Some targetCard \<Rightarrow>
             if \<not> canAct player w \<or> \<not> isBasic (heap w targetCard)
                \<or> orZero (turnPlaced (heap w targetCard)) \<ge> turnCount w
             then (False, w)
             else (case findIndex (\<lambda>c i. int i \<noteq> handIndex
                                      \<and> evolvesFromBasic (heap w c) = Some (id' (heap w targetCard)))
                          0 (hand p) of
                     None \<Rightarrow> (False, w)
                   | Some stage2EvoIndex \<Rightarrow>
                       (let evolvedCard = hand p ! stage2EvoIndex;
                            hand1 = snd (splice (hand p) (max handIndex (int stage2EvoIndex)) 1 []);
                            hand2 = snd (splice hand1 (min handIndex (int stage2EvoIndex)) 1 []);
                            w1 = setPlayer player (p\<lparr> hand := hand2 \<rparr>) w
                        in (True, performEvolution player evolvedCard targetCard targetBoardIndex w1))))"

text \<open>\<open>!p.hand[handIndex]?.evolvesFrom\<close>: no card at the index, no \<open>evolvesFrom\<close>, or the empty string.\<close>

definition evolve :: "PlayerId \<Rightarrow> int \<Rightarrow> int \<Rightarrow> World \<Rightarrow> World" where
  "evolve player handIndex targetBoardIndex w =
     (let p = players w player
      in case boardCard p targetBoardIndex of
           None \<Rightarrow> w
         | Some targetCard \<Rightarrow>
             (case at_index (hand p) handIndex of
                None \<Rightarrow> w
              | Some evolvedCard \<Rightarrow>
                  if \<not> canAct player w \<or> turnCount w \<le> 1
                     \<or> evolvesFrom (heap w evolvedCard) = None
                     \<or> evolvesFrom (heap w evolvedCard) = Some []
                     \<or> evolvesFrom (heap w evolvedCard) \<noteq> Some (id' (heap w targetCard))
                     \<or> orZero (turnPlaced (heap w targetCard)) \<ge> turnCount w
                  then w
                  else performEvolution player evolvedCard targetCard targetBoardIndex
                         (setPlayer player (p\<lparr> hand := snd (splice (hand p) handIndex 1 []) \<rparr>) w)))"

definition attack :: "World \<Rightarrow> World" where
  "attack w =
     (if \<not> canAct (currentPlayer w) w then w
      else (let me = currentPlayer w;
                opp = getOpponentId me
            in case (active (players w me), active (players w opp)) of
                 (Some a, Some d) \<Rightarrow>
                   (let newHp = orZero (hp (heap w d)) - orZero (attackDamage (heap w a));
                        w1 = w\<lparr> heap := (heap w)(d := (heap w d)\<lparr> hp := Some newHp \<rparr>) \<rparr>
                    in if newHp \<le> 0
                       then (let p = players w1 me;
                                 w2 = setPlayer me (p\<lparr> points := points p + (if isEx (heap w1 d) then 2 else 1) \<rparr>) w1;
                                 w3 = setPlayer opp ((players w2 opp)\<lparr> active := None \<rparr>) w2;
                                 canOpponentContinue = list_ex (\<lambda>c. c \<noteq> None) (bench (players w3 opp))
                             in if points (players w3 me) \<ge> 3 \<or> \<not> canOpponentContinue
                                then endGame me w3
                                else endTurn w3)
                       else endTurn w1)
               | _ \<Rightarrow> w))"

definition promote :: "PlayerId \<Rightarrow> int \<Rightarrow> World \<Rightarrow> World" where
  "promote player benchIndex w =
     (let p = players w player
      in if gameOver w \<or> active p \<noteq> None \<or> boardSlot (bench p) benchIndex = None then w
         else (let (removed, rest) = splice (bench p) benchIndex 1 [None]
               in update (setPlayer player
                    (p\<lparr> active := (case removed of [] \<Rightarrow> None | x # _ \<Rightarrow> x), bench := rest \<rparr>) w)))"

definition retreat :: "PlayerId \<Rightarrow> int \<Rightarrow> World \<Rightarrow> World" where
  "retreat player benchIndex w =
     (if \<not> canAct player w then w
      else (let p = players w player
            in if active p = None \<or> boardSlot (bench p) benchIndex = None then w
               else update (setPlayer player
                      (p\<lparr> active := boardSlot (bench p) benchIndex,
                         bench := set_index (bench p) benchIndex (active p) \<rparr>) w)))"

section \<open>Runs of the public operations\<close>

text \<open>
  The contract of \<open>Math.random\<close>: every sample lies in the unit interval, 1 excluded.
\<close>

definition tape_ok :: "World \<Rightarrow> bool" where
  "tape_ok w = (\<forall>k. 0 \<le> randomTape w k \<and> randomTape w k < 1)"

text \<open>
  A call of a public method of the class. \<open>step\<close> is the state after the call, when the call
  returns: \<open>initializeGame\<close> may not return, or throw.
\<close>

datatype Action =
    InitializeGame
  | SetPlayerReady PlayerId
  | EndTurn
  | PlayCard PlayerId int
  | PlayChickenNugget PlayerId int int
  | Evolve PlayerId int int
  | Attack
  | Promote PlayerId int
  | Retreat PlayerId int

fun step :: "Action \<Rightarrow> World \<Rightarrow> World option" where
  "step InitializeGame w = (case initializeGame w of Some (Inr w') \<Rightarrow> Some w' | _ \<Rightarrow> None)"
| "step (SetPlayerReady player) w = Some (setPlayerReady player w)"
| "step EndTurn w = Some (endTurn w)"
| "step (PlayCard player handIndex) w = Some (playCard player handIndex w)"
| "step (PlayChickenNugget player handIndex targetBoardIndex) w =
     Some (snd (playChickenNugget player handIndex targetBoardIndex w))"
| "step (Evolve player handIndex targetBoardIndex) w = Some (evolve player handIndex targetBoardIndex w)"
| "step Attack w = Some (attack w)"
| "step (Promote player benchIndex) w = Some (promote player benchIndex w)"
| "step (Retreat player benchIndex) w = Some (retreat player benchIndex w)"

fun run :: "Action list \<Rightarrow> World \<Rightarrow> World option" where
  "run [] w = Some w"
| "run (a # as) w = (case step a w of None \<Rightarrow> None | Some w' \<Rightarrow> run as w')"

text \<open>
  The states of a match: a new \<open>GameState\<close>, in a module whose random source keeps its
  contract, and what the public methods make of it.
\<close>

inductive reachable :: "World \<Rightarrow> bool" where
  new: "\<forall>k. 0 \<le> tape k \<and> tape k < 1 \<Longrightarrow> reachable (newGameState h n evs tape pos)"
| call: "reachable w \<Longrightarrow> step a w = Some w' \<Longrightarrow> reachable w'"

text \<open>The card objects the zones of a player, and of both players, refer to.\<close>

definition slotRefs :: "ref option list \<Rightarrow> ref list" where
  "slotRefs b = concat (map (\<lambda>s. case s of None \<Rightarrow> [] | Some r \<Rightarrow> [r]) b)"

definition zoneRefs :: "PlayerState \<Rightarrow> ref list" where
  "zoneRefs p = deck p @ hand p @ slotRefs [active p] @ slotRefs (bench p)"

definition allRefs :: "World \<Rightarrow> ref list" where
  "allRefs w = zoneRefs (players w P1) @ zoneRefs (players w P2)"

section \<open>Frame conditions and well-formed states\<close>

text \<open>
  \<open>quiet w w'\<close>: the step from \<open>w\<close> to \<open>w'\<close> leaves the phase, the turn, the result of the
  match, the points and the random source alone, and clears no supporter flag.
\<close>

definition quiet :: "World \<Rightarrow> World \<Rightarrow> bool" where
  "quiet w w' =
     (phase w' = phase w \<and> currentPlayer w' = currentPlayer w \<and> gameOver w' = gameOver w
      \<and> winner w' = winner w \<and> turnCount w' = turnCount w \<and> setupReady w' = setupReady w
      \<and> randomTape w' = randomTape w \<and> cardUidCounter w \<le> cardUidCounter w'
      \<and> (\<forall>q. points (players w' q) = points (players w q))
      \<and> (\<forall>q. hasPlayedSupporter (players w q) \<longrightarrow> hasPlayedSupporter (players w' q)))"

text \<open>
  \<open>advances w w'\<close>: what every public operation keeps: the turn counter does not decrease, the
  current player changes and a supporter flag is cleared only with a new turn, the phase only goes from setup to playing, and
  the match, once over, stays over with the same winner.
\<close>

definition advances :: "World \<Rightarrow> World \<Rightarrow> bool" where
  "advances w w' =
     (randomTape w' = randomTape w \<and> cardUidCounter w \<le> cardUidCounter w'
      \<and> turnCount w \<le> turnCount w'
      \<and> (turnCount w' = turnCount w \<longrightarrow>
           currentPlayer w' = currentPlayer w
           \<and> (\<forall>q. hasPlayedSupporter (players w q) \<longrightarrow> hasPlayedSupporter (players w' q)))
      \<and> (phase w' = phase w \<or> (phase w = Setup \<and> phase w' = Playing))
      \<and> (gameOver w' = gameOver w \<and> winner w' = winner w
          \<or> (phase w = Playing \<and> phase w' = Playing \<and> \<not> gameOver w \<and> gameOver w')))"

text \<open>
  A well-formed state: no card object occurs twice in the zones of the two players, every card
  object was allocated, and \<open>Math.random\<close> keeps its contract.
\<close>

definition wellFormed :: "World \<Rightarrow> bool" where
  "wellFormed w = (distinct (allRefs w) \<and> (\<forall>r \<in> set (allRefs w). r < cardUidCounter w) \<and> tape_ok w)"

section \<open>Example states\<close>

text \<open>The object \<open>createCard k\<close> builds when the counter stands at \<open>n\<close>.\<close>

definition cardOf :: "string \<Rightarrow> nat \<Rightarrow> Card" where
  "cardOf k n =
     (case CARD_DATA k of
        None \<Rightarrow> blank
      | Some template \<Rightarrow> template\<lparr> id' := k, hp := hp template, maxHp := hp template, uid := Some (String_of n) \<rparr>)"

text \<open>
  A position on turn 2, player 1 to act. Player 1: an Axolittle (object 0) with 40 damage is
  active, a Lazycat (2) with 40 damage is on the bench; the hand holds an Axolora (1), a
  Chicken Nugget (3), an MC Scratchinator (4) and two Panda's Plan (5, 8); the deck holds
  two cards. Player 2: an Axolittle (6) with 20 hit points left is active, a Lazycat (7)
  is on the bench.
\<close>

definition boardHeap :: "ref \<Rightarrow> Card" where
  "boardHeap =
     (\<lambda>_. blank)
       (0 := (cardOf ''base-001'' 0)\<lparr> hp := Some 20, turnPlaced := Some 1 \<rparr>,
        1 := cardOf ''base-002'' 1,
        2 := (cardOf ''base-003'' 2)\<lparr> hp := Some 20, turnPlaced := Some 1 \<rparr>,
        3 := cardOf ''base-008'' 3,
        4 := cardOf ''base-005'' 4,
        5 := cardOf ''base-006'' 5,
        6 := (cardOf ''base-001'' 6)\<lparr> hp := Some 20, turnPlaced := Some 0 \<rparr>,
        7 := (cardOf ''base-003'' 7)\<lparr> turnPlaced := Some 0 \<rparr>,
        8 := cardOf ''base-006'' 8,
        9 := cardOf ''base-002'' 9,
        10 := cardOf ''base-004'' 10)"

definition board :: World where
  "board =
     \<lparr> phase = Playing, currentPlayer = P1, gameOver = False, winner = None, turnCount = 2,
       setupReady = (\<lambda>_. True),
       players = (\<lambda>_. createPlayerState)
         (P1 := \<lparr> deck = [9, 10], hand = [1, 3, 4, 5, 8], active = Some 0,
                  bench = [Some 2, None, None], points = 0, hasPlayedSupporter = False \<rparr>,
          P2 := \<lparr> deck = [], hand = [], active = Some 6,
                  bench = [Some 7, None, None], points = 0, hasPlayedSupporter = False \<rparr>),
       heap = boardHeap, cardUidCounter = 11, dispatched = [],
       randomTape = (\<lambda>_. 0), randomPos = 0 \<rparr>"

text \<open>
  What an evolution leaves behind: the evolved card has its own \<open>maxHp\<close> less the damage
  the target carried before, it is stamped with the turn, and it stands in the target's slot.
\<close>

definition evolvedInto :: "World \<Rightarrow> World \<Rightarrow> PlayerId \<Rightarrow> int \<Rightarrow> ref \<Rightarrow> ref \<Rightarrow> bool" where
  "evolvedInto w w' player targetBoardIndex evolvedCard targetCard =
     (hp (heap w' evolvedCard)
        = Some (orZero (maxHp (heap w' evolvedCard))
                - (orZero (maxHp (heap w targetCard)) - orZero (hp (heap w targetCard))))
      \<and> maxHp (heap w' evolvedCard) = maxHp (heap w evolvedCard)
      \<and> turnPlaced (heap w' evolvedCard) = Some (turnCount w)
      \<and> boardCard (players w' player) targetBoardIndex = Some evolvedCard)"

text \<open>The ids of a deck list, one for each card, in the order \<open>createDeck\<close> creates them.\<close>

definition deckIds :: "(string \<times> nat) list \<Rightarrow> string list" where
  "deckIds cfg = concat (map (\<lambda>(k, n). replicate n k) cfg)"

text \<open>The card objects after \<open>createCard\<close> has run over the ids \<open>ids\<close> from counter \<open>n\<close> on.\<close>

definition created :: "string list \<Rightarrow> nat \<Rightarrow> (ref \<Rightarrow> Card) \<Rightarrow> ref \<Rightarrow> Card" where
  "created ids n h = (\<lambda>r. if n \<le> r \<and> r < n + length ids then cardOf (ids ! (r - n)) r else h r)"

text \<open>
  A source of samples: in the shuffle of each \<open>createDeck\<close> three of them move a card
  (\<open>j = 8\<close> at \<open>i = 18\<close>, \<open>j = 12\<close> at \<open>i = 17\<close>, \<open>j = 2\<close> at \<open>i = 16\<close>); all others give
  \<open>j = i\<close> on an array of at most 20 cards.
\<close>

definition dealTape :: "nat \<Rightarrow> rat" where
  "dealTape k = (if k = 1 \<or> k = 20 then 17 / 38
                 else if k = 2 \<or> k = 21 then 25 / 36
                 else if k = 3 \<or> k = 22 then 5 / 34
                 else 19 / 20)"

text \<open>
  A match under that source: the new \<open>GameState\<close>; the state when \<open>initializeGame\<close> has
  returned; the state on turn 1 when player 1 has placed the Lazycat (object 8) and the
  Axolittle (2), player 2 an Axolittle (22), and both are ready; the state after player 1 has
  played the Chicken Nugget on the Lazycat; the state after the attack that follows.
\<close>

definition freshGame :: World where
  "freshGame = newGameState (\<lambda>_. blank) 0 [] dealTape 0"

definition dealHeap :: "ref \<Rightarrow> Card" where
  "dealHeap = created (deckIds DECK_CONFIG_0) 20 (created (deckIds DECK_CONFIG_0) 0 (\<lambda>_. blank))"

definition dealt :: World where
  "dealt =
     \<lparr> phase = Setup, currentPlayer = P1, gameOver = False, winner = None, turnCount = 0,
       setupReady = case_PlayerId False False,
       players = case_PlayerId
         \<lparr> deck = [0, 1, 16, 3, 4, 5, 6, 7, 18, 9, 10, 11, 17, 13, 14], hand = [15, 2, 12, 8, 19],
           active = None, bench = [None, None, None], points = 0, hasPlayedSupporter = False \<rparr>
         \<lparr> deck = [20, 21, 36, 23, 24, 25, 26, 27, 38, 29, 30, 31, 37, 33, 34], hand = [35, 22, 32, 28, 39],
           active = None, bench = [None, None, None], points = 0, hasPlayedSupporter = False \<rparr>,
       heap = dealHeap, cardUidCounter = 40, dispatched = [GameInitialized],
       randomTape = dealTape, randomPos = 76 \<rparr>"

definition turnOne :: World where
  "turnOne =
     \<lparr> phase = Playing, currentPlayer = P1, gameOver = False, winner = None, turnCount = 1,
       setupReady = case_PlayerId True True,
       players = case_PlayerId
         \<lparr> deck = [0, 1, 16, 3, 4, 5, 6, 7, 18, 9, 10, 11, 17, 13, 14], hand = [15, 12, 19],
           active = Some 8, bench = [Some 2, None, None], points = 0, hasPlayedSupporter = False \<rparr>
         \<lparr> deck = [20, 21, 36, 23, 24, 25, 26, 27, 38, 29, 30, 31, 37, 33, 34], hand = [35, 32, 28, 39],
           active = Some 22, bench = [None, None, None], points = 0, hasPlayedSupporter = False \<rparr>,
       heap = dealHeap
         (8 := (cardOf ''base-003'' 8)\<lparr> turnPlaced := Some 0 \<rparr>,
          2 := (cardOf ''base-001'' 2)\<lparr> turnPlaced := Some 0 \<rparr>,
          22 := (cardOf ''base-001'' 22)\<lparr> turnPlaced := Some 0 \<rparr>),
       cardUidCounter = 40,
       dispatched = [GameInitialized, GameStateUpdated, GameStateUpdated, GameStateUpdated,
                     GameStateUpdated, TurnStarted P1, GameStateUpdated],
       randomTape = dealTape, randomPos = 76 \<rparr>"

definition evolvedOne :: World where
  "evolvedOne =
     \<lparr> phase = Playing, currentPlayer = P1, gameOver = False, winner = None, turnCount = 1,
       setupReady = case_PlayerId True True,
       players = case_PlayerId
         \<lparr> deck = [0, 1, 16, 3, 4, 5, 6, 7, 18, 9, 10, 11, 17, 13, 14], hand = [15],
           active = Some 12, bench = [Some 2, None, None], points = 0, hasPlayedSupporter = False \<rparr>
         \<lparr> deck = [20, 21, 36, 23, 24, 25, 26, 27, 38, 29, 30, 31, 37, 33, 34], hand = [35, 32, 28, 39],
           active = Some 22, bench = [None, None, None], points = 0, hasPlayedSupporter = False \<rparr>,
       heap = dealHeap
         (8 := (cardOf ''base-003'' 8)\<lparr> turnPlaced := Some 0 \<rparr>,
          2 := (cardOf ''base-001'' 2)\<lparr> turnPlaced := Some 0 \<rparr>,
          22 := (cardOf ''base-001'' 22)\<lparr> turnPlaced := Some 0 \<rparr>,
          12 := (cardOf ''base-005'' 12)\<lparr> hp := Some 180, turnPlaced := Some 1 \<rparr>),
       cardUidCounter = 40,
       dispatched = [GameInitialized, GameStateUpdated, GameStateUpdated, GameStateUpdated,
                     GameStateUpdated, TurnStarted P1, GameStateUpdated, GameStateUpdated],
       randomTape = dealTape, randomPos = 76 \<rparr>"

definition wonOne :: World where
  "wonOne =
     \<lparr> phase = Playing, currentPlayer = P1, gameOver = True, winner = Some P1, turnCount = 1,
       setupReady = case_PlayerId True True,
       players = case_PlayerId
         \<lparr> deck = [0, 1, 16, 3, 4, 5, 6, 7, 18, 9, 10, 11, 17, 13, 14], hand = [15],
           active = Some 12, bench = [Some 2, None, None], points = 1, hasPlayedSupporter = False \<rparr>
         \<lparr> deck = [20, 21, 36, 23, 24, 25, 26, 27, 38, 29, 30, 31, 37, 33, 34], hand = [35, 32, 28, 39],
           active = None, bench = [None, None, None], points = 0, hasPlayedSupporter = False \<rparr>,
       heap = dealHeap
         (8 := (cardOf ''base-003'' 8)\<lparr> turnPlaced := Some 0 \<rparr>,
          2 := (cardOf ''base-001'' 2)\<lparr> turnPlaced := Some 0 \<rparr>,
          12 := (cardOf ''base-005'' 12)\<lparr> hp := Some 180, turnPlaced := Some 1 \<rparr>,
          22 := (cardOf ''base-001'' 22)\<lparr> turnPlaced := Some 0, hp := Some (- 60) \<rparr>),
       cardUidCounter = 40,
       dispatched = [GameInitialized, GameStateUpdated, GameStateUpdated, GameStateUpdated,
                     GameStateUpdated, TurnStarted P1, GameStateUpdated, GameStateUpdated, GameEnded P1],
       randomTape = dealTape, randomPos = 76 \<rparr>"

text \<open>
  A position on turn 3, player 1 to act, with an Axolittle (object 0) active, three creatures
  on the bench and a Lazycat (4), never placed, alone in hand.
\<close>

definition fullHeap :: "ref \<Rightarrow> Card" where
  "fullHeap =
     (\<lambda>_. blank)
       (0 := (cardOf ''base-001'' 0)\<lparr> turnPlaced := Some 0 \<rparr>,
        1 := (cardOf ''base-003'' 1)\<lparr> turnPlaced := Some 0 \<rparr>,
        2 := (cardOf ''base-003'' 2)\<lparr> turnPlaced := Some 0 \<rparr>,
        3 := (cardOf ''base-001'' 3)\<lparr> turnPlaced := Some 0 \<rparr>,
        4 := cardOf ''base-003'' 4,
        5 := (cardOf ''base-001'' 5)\<lparr> turnPlaced := Some 0 \<rparr>)"

definition fullBoard :: World where
  "fullBoard =
     \<lparr> phase = Playing, currentPlayer = P1, gameOver = False, winner = None, turnCount = 3,
       setupReady = (\<lambda>_. True),
       players = case_PlayerId
         \<lparr> deck = [], hand = [4], active = Some 0,
           bench = [Some 1, Some 2, Some 3], points = 0, hasPlayedSupporter = False \<rparr>
         \<lparr> deck = [], hand = [], active = Some 5,
           bench = [None, None, None], points = 0, hasPlayedSupporter = False \<rparr>,
       heap = fullHeap, cardUidCounter = 6, dispatched = [],
       randomTape = (\<lambda>_. 0), randomPos = 0 \<rparr>"

text \<open>
  Inside \<open>initializeGame\<close> of that match: the state when both decks are built, and the state
  when the loop of player 1 has drawn its hand.
\<close>

definition decksBuilt :: World where
  "decksBuilt =
     \<lparr> phase = Setup, currentPlayer = P1, gameOver = False, winner = None, turnCount = 0,
       setupReady = case_PlayerId False False,
       players = case_PlayerId
         \<lparr> deck = [0, 1, 16, 3, 4, 5, 6, 7, 18, 9, 10, 11, 17, 13, 14, 15, 2, 12, 8, 19], hand = [],
           active = None, bench = [None, None, None], points = 0, hasPlayedSupporter = False \<rparr>
         \<lparr> deck = [20, 21, 36, 23, 24, 25, 26, 27, 38, 29, 30, 31, 37, 33, 34, 35, 22, 32, 28, 39], hand = [],
           active = None, bench = [None, None, None], points = 0, hasPlayedSupporter = False \<rparr>,
       heap = dealHeap, cardUidCounter = 40, dispatched = [],
       randomTape = dealTape, randomPos = 38 \<rparr>"

definition firstHand :: World where
  "firstHand =
     \<lparr> phase = Setup, currentPlayer = P1, gameOver = False, winner = None, turnCount = 0,
       setupReady = case_PlayerId False False,
       players = case_PlayerId
         \<lparr> deck = [0, 1, 16, 3, 4, 5, 6, 7, 18, 9, 10, 11, 17, 13, 14], hand = [15, 2, 12, 8, 19],
           active = None, bench = [None, None, None], points = 0, hasPlayedSupporter = False \<rparr>
         \<lparr> deck = [20, 21, 36, 23, 24, 25, 26, 27, 38, 29, 30, 31, 37, 33, 34, 35, 22, 32, 28, 39], hand = [],
           active = None, bench = [None, None, None], points = 0, hasPlayedSupporter = False \<rparr>,
       heap = dealHeap, cardUidCounter = 40, dispatched = [],
       randomTape = dealTape, randomPos = 57 \<rparr>"

text \<open>
  A new game whose random source returns 19/20 at every call, and its state when both decks
  are built: every shuffle leaves the order of the cards as it is.
\<close>

definition stuckGame :: World where
  "stuckGame = newGameState (\<lambda>_. blank) 0 [] (\<lambda>_. 19 / 20) 0"

definition stuckDecks :: World where
  "stuckDecks =
     \<lparr> phase = Setup, currentPlayer = P1, gameOver = False, winner = None, turnCount = 0,
       setupReady = case_PlayerId False False,
       players = case_PlayerId
         \<lparr> deck = [0 ..< 20], hand = [],
           active = None, bench = [None, None, None], points = 0, hasPlayedSupporter = False \<rparr>
         \<lparr> deck = [20 ..< 40], hand = [],
           active = None, bench = [None, None, None], points = 0, hasPlayedSupporter = False \<rparr>,
       heap = dealHeap, cardUidCounter = 40, dispatched = [],
       randomTape = (\<lambda>_. 19 / 20), randomPos = 38 \<rparr>"

text \<open>
  The scenario of the Coach Whistle test: player 1 holds a Coach Whistle (object 4), the deck
  holds two basic creatures (0, 1) and two evolutions (2, 3).
\<close>

definition whistleHeap :: "ref \<Rightarrow> Card" where
  "whistleHeap =
     (\<lambda>_. blank)
       (0 := cardOf ''base-001'' 0, 1 := cardOf ''base-003'' 1, 2 := cardOf ''base-002'' 2,
        3 := cardOf ''base-004'' 3, 4 := cardOf ''base-007'' 4)"

definition whistleBoard :: World where
  "whistleBoard =
     \<lparr> phase = Playing, currentPlayer = P1, gameOver = False, winner = None, turnCount = 1,
       setupReady = (\<lambda>_. True),
       players = case_PlayerId
         \<lparr> deck = [0, 1, 2, 3], hand = [4], active = None,
           bench = [None, None, None], points = 0, hasPlayedSupporter = False \<rparr>
         \<lparr> deck = [], hand = [], active = None,
           bench = [None, None, None], points = 0, hasPlayedSupporter = False \<rparr>,
       heap = whistleHeap, cardUidCounter = 5, dispatched = [],
       randomTape = (\<lambda>_. 0), randomPos = 0 \<rparr>"

text \<open>
  The match of \<open>turnOne\<close> after 28 calls of \<open>endTurn\<close>: turn 29, player 1 to act, whose deck
  is down to one card; the Panda's Plan (15) is still the first card of the hand.
\<close>

definition lateGame :: World where
  "lateGame =
     \<lparr> phase = Playing, currentPlayer = P1, gameOver = False, winner = None, turnCount = 29,
       setupReady = case_PlayerId True True,
       players = case_PlayerId
         \<lparr> deck = [0], hand = [15, 12, 19, 14, 13, 17, 11, 10, 9, 18, 7, 6, 5, 4, 3, 16, 1],
           active = Some 8, bench = [Some 2, None, None], points = 0, hasPlayedSupporter = False \<rparr>
         \<lparr> deck = [20], hand = [35, 32, 28, 39, 34, 33, 37, 31, 30, 29, 38, 27, 26, 25, 24, 23, 36, 21],
           active = Some 22, bench = [None, None, None], points = 0, hasPlayedSupporter = False \<rparr>,
       heap = dealHeap
         (8 := (cardOf ''base-003'' 8)\<lparr> turnPlaced := Some 0 \<rparr>,
          2 := (cardOf ''base-001'' 2)\<lparr> turnPlaced := Some 0 \<rparr>,
          22 := (cardOf ''base-001'' 22)\<lparr> turnPlaced := Some 0 \<rparr>),
       cardUidCounter = 40,
       dispatched = [GameInitialized, GameStateUpdated, GameStateUpdated, GameStateUpdated,
                     GameStateUpdated, TurnStarted P1, GameStateUpdated, TurnStarted P2,
                     GameStateUpdated, TurnStarted P1, GameStateUpdated, TurnStarted P2,
                     GameStateUpdated, TurnStarted P1, GameStateUpdated, TurnStarted P2,
                     GameStateUpdated, TurnStarted P1, GameStateUpdated, TurnStarted P2,
                     GameStateUpdated, TurnStarted P1, GameStateUpdated, TurnStarted P2,
                     GameStateUpdated, TurnStarted P1, GameStateUpdated, TurnStarted P2,
                     GameStateUpdated, TurnStarted P1, GameStateUpdated, TurnStarted P2,
                     GameStateUpdated, TurnStarted P1, GameStateUpdated, TurnStarted P2,
                     GameStateUpdated, TurnStarted P1, GameStateUpdated, TurnStarted P2,
                     GameStateUpdated, TurnStarted P1, GameStateUpdated, TurnStarted P2,
                     GameStateUpdated, TurnStarted P1, GameStateUpdated, TurnStarted P2,
                     GameStateUpdated, TurnStarted P1, GameStateUpdated, TurnStarted P2,
                     GameStateUpdated, TurnStarted P1, GameStateUpdated, TurnStarted P2,
                     GameStateUpdated, TurnStarted P1, GameStateUpdated, TurnStarted P2,
                     GameStateUpdated, TurnStarted P1, GameStateUpdated],
       randomTape = dealTape, randomPos = 76 \<rparr>"

section \<open>Arrays: facts\<close>

lemma splice_one:
  "0 \<le> i \<Longrightarrow> i < int (length xs) \<Longrightarrow>
   splice xs i 1 [] = ([xs ! nat i], take (nat i) xs @ drop (Suc (nat i)) xs)"
proof -
  assume a: "0 \<le> i" "i < int (length xs)"
  then have k: "splice_start i (length xs) = nat i" "nat i < length xs"
    by (auto simp: splice_start_def)
  have "take 1 (drop (nat i) xs) = [xs ! nat i]"
    using k(2) by (simp add: take_Suc_conv_app_nth Cons_nth_drop_Suc[symmetric])
  moreover have "min 1 (length xs - nat i) = 1"
    using k(2) by simp
  ultimately show ?thesis using k
    by (simp add: splice_def Let_def)
qed

lemma nat_max_diff: "nat (max (int a - int b) 0) = a - b"
  by linarith

lemma splice_rest_last:
  "0 < n \<Longrightarrow> splice_rest xs (- int n) = (drop (length xs - n) xs, take (length xs - n) xs)"
  by (simp add: splice_rest_def splice_def splice_start_def Let_def nat_max_diff)

lemma at_index_Some:
  "at_index xs i = Some x \<longleftrightarrow> 0 \<le> i \<and> i < int (length xs) \<and> xs ! nat i = x"
  by (auto simp: at_index_def)

lemma boardSlot_Some:
  "boardSlot b i = Some r \<longleftrightarrow> 0 \<le> i \<and> i < int (length b) \<and> b ! nat i = Some r"
  by (auto simp: boardSlot_def at_index_def split: option.splits)

section \<open>The example states: their cards\<close>

lemma board_fields:
  "phase board = Playing" "currentPlayer board = P1" "\<not> gameOver board" "winner board = None"
  "turnCount board = 2" "heap board = boardHeap" "dispatched board = []"
  "players board P1 = \<lparr> deck = [9, 10], hand = [1, 3, 4, 5, 8], active = Some 0,
     bench = [Some 2, None, None], points = 0, hasPlayedSupporter = False \<rparr>"
  "players board P2 = \<lparr> deck = [], hand = [], active = Some 6,
     bench = [Some 7, None, None], points = 0, hasPlayedSupporter = False \<rparr>"
  by (simp_all add: board_def)

lemma board_cards:
  "boardHeap 0 = (cardOf ''base-001'' 0)\<lparr> hp := Some 20, turnPlaced := Some 1 \<rparr>"
  "boardHeap 1 = cardOf ''base-002'' 1"
  "boardHeap (Suc 0) = cardOf ''base-002'' 1"
  "boardHeap 2 = (cardOf ''base-003'' 2)\<lparr> hp := Some 20, turnPlaced := Some 1 \<rparr>"
  "boardHeap 3 = cardOf ''base-008'' 3"
  "boardHeap 4 = cardOf ''base-005'' 4"
  "boardHeap 5 = cardOf ''base-006'' 5"
  "boardHeap 6 = (cardOf ''base-001'' 6)\<lparr> hp := Some 20, turnPlaced := Some 0 \<rparr>"
  "boardHeap 7 = (cardOf ''base-003'' 7)\<lparr> turnPlaced := Some 0 \<rparr>"
  "boardHeap 8 = cardOf ''base-006'' 8"
  by (simp_all add: boardHeap_def)

lemma cardOf_fields:
  "id' (cardOf ''base-001'' n) = ''base-001''" "hp (cardOf ''base-001'' n) = Some 60"
  "maxHp (cardOf ''base-001'' n) = Some 60" "attackDamage (cardOf ''base-001'' n) = Some 20"
  "isBasic (cardOf ''base-001'' n)" "\<not> isSupporter (cardOf ''base-001'' n)" "\<not> isEx (cardOf ''base-001'' n)"
  "id' (cardOf ''base-002'' n) = ''base-002''" "hp (cardOf ''base-002'' n) = Some 90"
  "maxHp (cardOf ''base-002'' n) = Some 90" "evolvesFrom (cardOf ''base-002'' n) = Some ''base-001''"
  "\<not> isBasic (cardOf ''base-002'' n)" "\<not> isSupporter (cardOf ''base-002'' n)"
  "evolvesFromBasic (cardOf ''base-002'' n) = None"
  "id' (cardOf ''base-003'' n) = ''base-003''" "hp (cardOf ''base-003'' n) = Some 60"
  "maxHp (cardOf ''base-003'' n) = Some 60" "attackDamage (cardOf ''base-003'' n) = Some 20"
  "isBasic (cardOf ''base-003'' n)" "\<not> isSupporter (cardOf ''base-003'' n)" "\<not> isEx (cardOf ''base-003'' n)"
  "id' (cardOf ''base-005'' n) = ''base-005''" "hp (cardOf ''base-005'' n) = Some 180"
  "maxHp (cardOf ''base-005'' n) = Some 180" "attackDamage (cardOf ''base-005'' n) = Some 120"
  "evolvesFromBasic (cardOf ''base-005'' n) = Some ''base-003''" "isEx (cardOf ''base-005'' n)"
  "\<not> isBasic (cardOf ''base-005'' n)" "\<not> isSupporter (cardOf ''base-005'' n)"
  "id' (cardOf ''base-006'' n) = ''base-006''" "isSupporter (cardOf ''base-006'' n)"
  "\<not> isBasic (cardOf ''base-006'' n)" "evolvesFromBasic (cardOf ''base-006'' n) = None"
  "id' (cardOf ''base-007'' n) = ''base-007''" "\<not> isSupporter (cardOf ''base-007'' n)"
  "\<not> isBasic (cardOf ''base-007'' n)"
  "id' (cardOf ''base-008'' n) = ''base-008''" "\<not> isSupporter (cardOf ''base-008'' n)"
  "\<not> isBasic (cardOf ''base-008'' n)" "evolvesFromBasic (cardOf ''base-008'' n) = None"
  by (simp_all add: cardOf_def CARD_DATA_def blank_def)

section \<open>Playing a card\<close>

text \<open>
  C10. For every state and every hand index that addresses no card of the acting player's
  hand (negative, or at least the length of the hand), \<open>playCard\<close> returns the state it
  was given: nothing changes and no event is dispatched.
\<close>

theorem playCard_without_card:
  "handIndex < 0 \<or> int (length (hand (players w player))) \<le> handIndex \<Longrightarrow>
   playCard player handIndex w = w"
  by (auto simp: playCard_def at_index_def)

theorem playCard_without_card_witness:
  "int (length (hand (players board P1))) \<le> 7 \<and> playCard P1 7 board = board
   \<and> playCard P1 (- 1) board = board"
  using playCard_without_card [of 7 board P1] playCard_without_card [of "- 1" board P1]
  by (simp add: board_def)

section \<open>Turns and attacks\<close>

lemma startTurn_fields:
  "currentPlayer (startTurn p w) = p"
  "turnCount (startTurn p w) = turnCount w + 1"
  "gameOver (startTurn p w) = gameOver w"
  "winner (startTurn p w) = winner w"
  "phase (startTurn p w) = phase w"
  "heap (startTurn p w) = heap w"
  "dispatched (startTurn p w) = dispatched w @ [TurnStarted p, GameStateUpdated]"
  by (simp_all add: startTurn_def Let_def setPlayer_def update_def notify_def drawCards_def split: prod.splits)

lemma startTurn_player:
  "points (players (startTurn p w) q) = points (players w q)"
  "active (players (startTurn p w) q) = active (players w q)"
  "bench (players (startTurn p w) q) = bench (players w q)"
  by (simp_all add: startTurn_def Let_def setPlayer_def update_def notify_def drawCards_def split: prod.splits)

lemma getOpponentId_neq [simp]: "getOpponentId p \<noteq> p" "p \<noteq> getOpponentId p"
  by (simp_all add: getOpponentId_def)

text \<open>
  C1. For every \<open>attack\<close> that knocks out the defender's active creature (its hit points
  fall to 0 or below): the attacker's points grow by exactly 2 if the defeated card is an
  ex, else by exactly 1; the defender's active slot is cleared; the game is over exactly
  when the attacker's new total is at least 3 or the defender's bench holds no card, and
  then the attacker is the winner and stays the current player; otherwise the turn passes
  to the opponent. The two conditions of the source (points first, bench second) have no
  effect of their own, so their order shows in no state.
\<close>

theorem attack_knockout:
  assumes act: "canAct (currentPlayer w) w"
    and a: "active (players w (currentPlayer w)) = Some a"
    and d: "active (players w (getOpponentId (currentPlayer w))) = Some d"
    and ko: "orZero (hp (heap w d)) - orZero (attackDamage (heap w a)) \<le> 0"
  shows "points (players (attack w) (currentPlayer w))
           = points (players w (currentPlayer w)) + (if isEx (heap w d) then 2 else 1)
       \<and> active (players (attack w) (getOpponentId (currentPlayer w))) = None
       \<and> (gameOver (attack w) \<longleftrightarrow>
            3 \<le> points (players w (currentPlayer w)) + (if isEx (heap w d) then 2 else 1)
            \<or> \<not> list_ex (\<lambda>c. c \<noteq> None) (bench (players w (getOpponentId (currentPlayer w)))))
       \<and> (if gameOver (attack w)
          then winner (attack w) = Some (currentPlayer w)
             \<and> currentPlayer (attack w) = currentPlayer w
             \<and> turnCount (attack w) = turnCount w
             \<and> dispatched (attack w) = dispatched w @ [GameEnded (currentPlayer w)]
          else winner (attack w) = winner w
             \<and> currentPlayer (attack w) = getOpponentId (currentPlayer w)
             \<and> turnCount (attack w) = turnCount w + 1
             \<and> dispatched (attack w)
                 = dispatched w @ [TurnStarted (getOpponentId (currentPlayer w)), GameStateUpdated])"
proof -
  define me where "me = currentPlayer w"
  define opp where "opp = getOpponentId me"
  define pts where "pts = points (players w me) + (if isEx (heap w d) then 2 else 1)"
  define w3 where "w3 = w\<lparr> heap := (heap w)(d := (heap w d)\<lparr> hp := Some (orZero (hp (heap w d)) - orZero (attackDamage (heap w a))) \<rparr>),
                          players := (players w)(me := (players w me)\<lparr> points := pts \<rparr>,
                                                 opp := (players w opp)\<lparr> active := None \<rparr>) \<rparr>"
  have ng: "\<not> gameOver w" using act by (simp add: canAct_def)
  have neq: "opp \<noteq> me" by (simp add: opp_def)
  have eq: "attack w = (if 3 \<le> pts \<or> \<not> list_ex (\<lambda>c. c \<noteq> None) (bench (players w opp))
                        then endGame me w3 else startTurn opp w3)"
    using act a d ko neq ng
    by (simp add: attack_def Let_def me_def[symmetric] opp_def[symmetric] setPlayer_def pts_def w3_def endTurn_def)
  have w3: "points (players w3 me) = pts" "active (players w3 opp) = None" "\<not> gameOver w3"
    "winner w3 = winner w" "currentPlayer w3 = me" "turnCount w3 = turnCount w" "dispatched w3 = dispatched w"
    using neq ng by (simp_all add: w3_def me_def)
  show ?thesis
    unfolding me_def[symmetric] opp_def[symmetric] pts_def[symmetric] eq
    using w3 by (simp add: endGame_def notify_def startTurn_fields startTurn_player)
qed


theorem attack_knockout_witness:
  "canAct (currentPlayer board) board
   \<and> active (players board P1) = Some 0 \<and> active (players board P2) = Some 6
   \<and> points (players board P1) = 0 \<and> points (players (attack board) P1) = 1
   \<and> active (players (attack board) P2) = None
   \<and> \<not> gameOver (attack board)
   \<and> currentPlayer (attack board) = P2 \<and> turnCount (attack board) = 3"
proof -
  have h: "canAct (currentPlayer board) board"
    "active (players board (currentPlayer board)) = Some 0"
    "active (players board (getOpponentId (currentPlayer board))) = Some 6"
    "orZero (hp (heap board 6)) - orZero (attackDamage (heap board 0)) \<le> 0"
    by (simp_all add: board_fields canAct_def getOpponentId_def board_cards cardOf_fields orZero_def)
  have b: "getOpponentId P1 = P2" "\<not> isEx (heap board 6)"
    "list_ex (\<lambda>c. c \<noteq> None) (bench (players board P2))"
    by (simp_all add: board_fields getOpponentId_def board_cards cardOf_fields)
  from attack_knockout [OF h] b h(1) show ?thesis
    by (simp add: board_fields split: if_splits)
qed

section \<open>Evolution\<close>

lemma evolve_cases:
  "evolve player h t w = w \<or>
   (\<exists>e target. boardCard (players w player) t = Some target
      \<and> at_index (hand (players w player)) h = Some e
      \<and> canAct player w \<and> 1 < turnCount w
      \<and> evolvesFrom (heap w e) = Some (id' (heap w target))
      \<and> orZero (turnPlaced (heap w target)) < turnCount w
      \<and> evolve player h t w =
          performEvolution player e target t
            (setPlayer player ((players w player)\<lparr> hand := snd (splice (hand (players w player)) h 1 []) \<rparr>) w))"
  by (auto simp: evolve_def Let_def split: option.splits)

lemma findIndex_Some:
  "findIndex P k0 xs = Some k \<Longrightarrow> k0 \<le> k \<and> k - k0 < length xs \<and> P (xs ! (k - k0)) k"
proof (induction xs arbitrary: k0)
  case Nil
  then show ?case by simp
next
  case (Cons x xs)
  show ?case
  proof (cases "P x k0")
    case True
    with Cons.prems show ?thesis by simp
  next
    case False
    with Cons.prems have "findIndex P (Suc k0) xs = Some k" by simp
    from Cons.IH[OF this] have ih: "Suc k0 \<le> k" "k - Suc k0 < length xs" "P (xs ! (k - Suc k0)) k"
      by auto
    then have "k - k0 = Suc (k - Suc k0)" by arith
    with ih show ?thesis by simp
  qed
qed

lemma nugget_cases:
  "playChickenNugget player h t w = (False, w) \<or>
   (\<exists>target k hand2. boardCard (players w player) t = Some target
      \<and> canAct player w \<and> isBasic (heap w target)
      \<and> orZero (turnPlaced (heap w target)) < turnCount w
      \<and> findIndex (\<lambda>c i. int i \<noteq> h \<and> evolvesFromBasic (heap w c) = Some (id' (heap w target)))
           0 (hand (players w player)) = Some k
      \<and> playChickenNugget player h t w =
          (True, performEvolution player (hand (players w player) ! k) target t
                   (setPlayer player ((players w player)\<lparr> hand := hand2 \<rparr>) w)))"
  by (auto simp: playChickenNugget_def Let_def split: option.splits)

lemma boardCard_in_range:
  "boardCard p t = Some r \<Longrightarrow> t = - 1 \<or> (0 \<le> t \<and> t < int (length (bench p)))"
  by (auto simp: boardCard_def boardSlot_Some split: if_splits)

lemma heap_performEvolution:
  "heap (performEvolution player e target t w) =
     (heap w)(e := (heap w e)\<lparr> hp := Some (orZero (maxHp (heap w e)) - (orZero (maxHp (heap w target)) - orZero (hp (heap w target)))),
                               turnPlaced := Some (turnCount w) \<rparr>)"
  by (simp add: performEvolution_def Let_def setPlayer_def update_def notify_def)

lemma boardCard_performEvolution:
  "t = - 1 \<or> (0 \<le> t \<and> t < int (length (bench (players w player)))) \<Longrightarrow>
   boardCard (players (performEvolution player e target t w) player) t = Some e"
  by (auto simp: performEvolution_def Let_def setPlayer_def update_def notify_def boardCard_def
      boardSlot_def set_index_def at_index_def)

lemma evolvedInto_performEvolution:
  assumes "boardCard (players w player) t = Some target"
  shows "evolvedInto w (performEvolution player e target t (setPlayer player ((players w player)\<lparr> hand := hs \<rparr>) w))
           player t e target"
proof -
  let ?w1 = "setPlayer player ((players w player)\<lparr> hand := hs \<rparr>) w"
  have r: "t = - 1 \<or> (0 \<le> t \<and> t < int (length (bench (players ?w1 player))))"
    using boardCard_in_range[OF assms] by (simp add: setPlayer_def)
  have h: "heap ?w1 = heap w" "turnCount ?w1 = turnCount w" by (simp_all add: setPlayer_def)
  show ?thesis
    unfolding evolvedInto_def heap_performEvolution h
    using boardCard_performEvolution[OF r] by simp
qed

text \<open>
  C3. For every successful \<open>evolve\<close> (a call that changes the state) and every successful
  \<open>playChickenNugget\<close> (a call that returns true), damage carries forward: the hit points of
  the evolved card are its \<open>maxHp\<close> less the damage on the target before the call (the
  target's \<open>maxHp\<close> less its \<open>hp\<close>, an absent number counting as 0); its \<open>maxHp\<close> is
  unchanged, its \<open>turnPlaced\<close> is the current turn counter, and it stands in the slot of
  the target. The witness is the example of the specification: a target with \<open>maxHp\<close> 60
  and \<open>hp\<close> 20 evolves into a card with \<open>maxHp\<close> 90, which then has \<open>hp\<close> 50.
\<close>

theorem evolution_carries_damage:
  "(evolve player h t w \<noteq> w \<longrightarrow>
      (\<exists>e target. boardCard (players w player) t = Some target
         \<and> at_index (hand (players w player)) h = Some e
         \<and> evolvedInto w (evolve player h t w) player t e target))
   \<and> (fst (playChickenNugget player h t w) \<longrightarrow>
      (\<exists>e target. boardCard (players w player) t = Some target
         \<and> e \<in> set (hand (players w player))
         \<and> evolvesFromBasic (heap w e) = Some (id' (heap w target))
         \<and> evolvedInto w (snd (playChickenNugget player h t w)) player t e target))"
proof (intro conjI impI)
  assume "evolve player h t w \<noteq> w"
  with evolve_cases[of player h t w] obtain e target where
    *: "boardCard (players w player) t = Some target" "at_index (hand (players w player)) h = Some e"
    "evolve player h t w =
          performEvolution player e target t
            (setPlayer player ((players w player)\<lparr> hand := snd (splice (hand (players w player)) h 1 []) \<rparr>) w)"
    by blast
  show "\<exists>e target. boardCard (players w player) t = Some target
         \<and> at_index (hand (players w player)) h = Some e
         \<and> evolvedInto w (evolve player h t w) player t e target"
    using * evolvedInto_performEvolution[OF *(1)] by auto
next
  assume "fst (playChickenNugget player h t w)"
  with nugget_cases[of player h t w] obtain target k hand2 where
    *: "boardCard (players w player) t = Some target"
    "findIndex (\<lambda>c i. int i \<noteq> h \<and> evolvesFromBasic (heap w c) = Some (id' (heap w target)))
           0 (hand (players w player)) = Some k"
    "playChickenNugget player h t w =
          (True, performEvolution player (hand (players w player) ! k) target t
                   (setPlayer player ((players w player)\<lparr> hand := hand2 \<rparr>) w))"
    by auto
  from findIndex_Some[OF *(2)] have k: "k < length (hand (players w player))"
    "evolvesFromBasic (heap w (hand (players w player) ! k)) = Some (id' (heap w target))"
    by auto
  show "\<exists>e target. boardCard (players w player) t = Some target
         \<and> e \<in> set (hand (players w player))
         \<and> evolvesFromBasic (heap w e) = Some (id' (heap w target))
         \<and> evolvedInto w (snd (playChickenNugget player h t w)) player t e target"
    using * k evolvedInto_performEvolution[OF *(1)] by (auto intro!: exI[of _ "hand (players w player) ! k"])
qed

theorem evolution_carries_damage_witness:
  "evolve P1 0 (- 1) board \<noteq> board
   \<and> hp (heap (evolve P1 0 (- 1) board) 1) = Some 50
   \<and> turnPlaced (heap (evolve P1 0 (- 1) board) 1) = Some 2
   \<and> active (players (evolve P1 0 (- 1) board) P1) = Some 1
   \<and> fst (playChickenNugget P1 1 0 board)
   \<and> hp (heap (snd (playChickenNugget P1 1 0 board)) 4) = Some 140
   \<and> bench (players (snd (playChickenNugget P1 1 0 board)) P1) ! 0 = Some 4"
proof -
  have e: "dispatched (evolve P1 0 (- 1) board) \<noteq> dispatched board"
    by (simp add: evolve_def board_def board_cards cardOf_fields boardCard_def at_index_def canAct_def
        orZero_def Let_def performEvolution_def setPlayer_def update_def notify_def)
  then have e': "evolve P1 0 (- 1) board \<noteq> board" by auto
  have n: "fst (playChickenNugget P1 1 0 board)"
    by (simp add: playChickenNugget_def board_def board_cards cardOf_fields boardCard_def boardSlot_def at_index_def canAct_def
        orZero_def Let_def)
  have b: "boardCard (players board P1) (- 1) = Some 0" "at_index (hand (players board P1)) 0 = Some 1"
    "boardCard (players board P1) 0 = Some 2" "hand (players board P1) = [1, 3, 4, 5, 8]"
    "heap board = boardHeap" "turnCount board = 2"
    by (simp_all add: board_def boardCard_def boardSlot_def at_index_def)
  from evolution_carries_damage[of P1 0 "- 1" board] e' b
  have 1: "evolvedInto board (evolve P1 0 (- 1) board) P1 (- 1) 1 0" by auto
  from evolution_carries_damage[of P1 1 0 board] n b
  have 2: "evolvedInto board (snd (playChickenNugget P1 1 0 board)) P1 0 4 2"
    by (auto simp: board_cards cardOf_fields)
  from 1 2 e' n b show ?thesis
    by (auto simp: evolvedInto_def board_cards cardOf_fields orZero_def boardCard_def boardSlot_Some)
qed

section \<open>Creating cards and decks\<close>

lemma created_Nil [simp]: "created [] n h = h"
  by (rule ext) (auto simp: created_def)

lemma createCard_ok:
  "CARD_DATA k \<noteq> None \<Longrightarrow> cardUidCounter w = n \<Longrightarrow> heap w = h \<Longrightarrow>
   createCard k w = Inr (n, w\<lparr> heap := h(n := cardOf k n), cardUidCounter := n + 1 \<rparr>)"
  by (auto simp: createCard_def cardOf_def Let_def)

lemma createCopies_ok:
  "CARD_DATA k \<noteq> None \<Longrightarrow> cardUidCounter w = n \<Longrightarrow> heap w = h \<Longrightarrow>
   createCopies k m w = Inr ([n ..< n + m],
      w\<lparr> heap := created (replicate m k) n h, cardUidCounter := n + m \<rparr>)"
proof (induction m arbitrary: w n h)
  case 0
  then show ?case by auto
next
  case (Suc m)
  let ?w1 = "w\<lparr> heap := h(n := cardOf k n), cardUidCounter := n + 1 \<rparr>"
  have h: "created (replicate m k) (Suc n) (h(n := cardOf k n)) = created (replicate (Suc m) k) n h"
    by (rule ext) (auto simp: created_def nth_Cons split: nat.splits)
  have 1: "createCard k w = Inr (n, ?w1)"
    by (rule createCard_ok[OF Suc.prems])
  have 2: "createCopies k m ?w1 = Inr ([Suc n ..< Suc n + m],
      ?w1\<lparr> heap := created (replicate m k) (Suc n) (h(n := cardOf k n)),
           cardUidCounter := Suc n + m \<rparr>)"
    by (rule Suc.IH[OF Suc.prems(1)]) simp_all
  have 3: "?w1\<lparr> heap := created (replicate m k) (Suc n) (h(n := cardOf k n)),
           cardUidCounter := Suc n + m \<rparr>
        = w\<lparr> heap := created (replicate (Suc m) k) n h, cardUidCounter := n + Suc m \<rparr>"
    unfolding h by simp
  have 4: "n # [Suc n ..< Suc n + m] = [n ..< n + Suc m]"
    by (simp add: upt_conv_Cons)
  have "createCopies k (Suc m) w = Inr (n # [Suc n ..< Suc n + m],
          ?w1\<lparr> heap := created (replicate m k) (Suc n) (h(n := cardOf k n)),
           cardUidCounter := Suc n + m \<rparr>)"
    by (simp only: createCopies.simps 1 2 sum.case prod.case)
  then show ?case
    by (simp only: 3 4)
qed

lemma createAll_ok:
  "\<forall>(k, m) \<in> set cfg. CARD_DATA k \<noteq> None \<Longrightarrow> cardUidCounter w = n \<Longrightarrow> heap w = h \<Longrightarrow>
   createAll cfg w = Inr ([n ..< n + length (deckIds cfg)],
      w\<lparr> heap := created (deckIds cfg) n h, cardUidCounter := n + length (deckIds cfg) \<rparr>)"
proof (induction cfg arbitrary: w n h)
  case Nil
  then show ?case by (auto simp add: deckIds_def)
next
  case (Cons a cfg)
  obtain k m where a: "a = (k, m)" by (cases a)
  let ?w1 = "w\<lparr> heap := created (replicate m k) n h, cardUidCounter := n + m \<rparr>"
  have k: "CARD_DATA k \<noteq> None" using Cons.prems a by simp
  have rest: "\<forall>(k, m) \<in> set cfg. CARD_DATA k \<noteq> None" using Cons.prems by simp
  have ids: "deckIds (a # cfg) = replicate m k @ deckIds cfg" by (simp add: deckIds_def a)
  have h: "created (deckIds cfg) (n + m) (created (replicate m k) n h)
            = created (deckIds (a # cfg)) n h"
    by (rule ext) (auto simp: created_def ids nth_append)
  have u: "[n ..< n + m] @ [n + m ..< n + m + length (deckIds cfg)] = [n ..< n + length (deckIds (a # cfg))]"
    using upt_add_eq_append[of n "n + m" "length (deckIds cfg)"] by (simp add: ids add.assoc)
  have 1: "createCopies k m w = Inr ([n ..< n + m], ?w1)"
    by (rule createCopies_ok[OF k Cons.prems(2,3)])
  have 2: "createAll cfg ?w1 = Inr ([n + m ..< n + m + length (deckIds cfg)],
      ?w1\<lparr> heap := created (deckIds cfg) (n + m) (created (replicate m k) n h),
           cardUidCounter := n + m + length (deckIds cfg) \<rparr>)"
    by (rule Cons.IH[OF rest]) simp_all
  have 3: "?w1\<lparr> heap := created (deckIds cfg) (n + m) (created (replicate m k) n h),
           cardUidCounter := n + m + length (deckIds cfg) \<rparr>
         = w\<lparr> heap := created (deckIds (a # cfg)) n h,
              cardUidCounter := n + length (deckIds (a # cfg)) \<rparr>"
    unfolding h by (simp add: ids add.assoc)
  have "createAll ((k, m) # cfg) w = Inr ([n ..< n + m] @ [n + m ..< n + m + length (deckIds cfg)],
      ?w1\<lparr> heap := created (deckIds cfg) (n + m) (created (replicate m k) n h),
           cardUidCounter := n + m + length (deckIds cfg) \<rparr>)"
    by (simp only: createAll.simps 1 2 sum.case prod.case)
  then show ?case
    by (simp only: 3 u a)
qed

lemma config_known: "\<forall>(k, m) \<in> set DECK_CONFIG_0. CARD_DATA k \<noteq> None"
  by (simp add: DECK_CONFIG_0_def CARD_DATA_def)

lemma deckIds_0:
  "deckIds DECK_CONFIG_0 =
     [''base-001'', ''base-001'', ''base-001'', ''base-002'', ''base-002'', ''base-002'',
      ''base-003'', ''base-003'', ''base-003'', ''base-004'', ''base-004'', ''base-005'', ''base-005'',
      ''base-006'', ''base-006'', ''base-006'', ''base-007'', ''base-007'', ''base-008'', ''base-008'']"
  by (simp add: deckIds_def DECK_CONFIG_0_def numeral_eq_Suc)

lemma length_deckIds_0: "length (deckIds DECK_CONFIG_0) = 20"
  by (simp add: deckIds_0)

section \<open>Shuffling\<close>

lemma floor_scaled_less:
  fixes u :: rat
  assumes "0 \<le> u" "u < 1" "0 < n"
  shows "nat \<lfloor>u * of_nat n\<rfloor> < n"
proof -
  have "u * of_nat n < of_nat n"
    using assms by (simp add: mult_less_cancel_right2)
  then have "\<lfloor>u * of_nat n\<rfloor> < int n"
    by (simp add: floor_less_iff)
  moreover have "0 \<le> \<lfloor>u * of_nat n\<rfloor>"
    using assms by simp
  ultimately show ?thesis by linarith
qed

lemma randomIndex_snd: "snd (randomIndex n w) = w\<lparr> randomPos := randomPos w + 1 \<rparr>"
  by (simp add: randomIndex_def Math_random_def)

lemma randomIndex_less:
  "tape_ok w \<Longrightarrow> 0 < n \<Longrightarrow> fst (randomIndex n w) < n"
  by (simp add: randomIndex_def Math_random_def tape_ok_def floor_scaled_less)

lemma tape_ok_randomPos [simp]: "tape_ok (w\<lparr> randomPos := k \<rparr>) = tape_ok w"
  by (simp add: tape_ok_def)

lemma shuffle_from_snd:
  "snd (shuffle_from n xs w) = w\<lparr> randomPos := randomPos w + n \<rparr>"
proof (induction n arbitrary: xs w)
  case 0
  then show ?case by simp
next
  case (Suc n)
  obtain j w' where r: "randomIndex (Suc (Suc n)) w = (j, w')" by (cases "randomIndex (Suc (Suc n)) w")
  then have "w' = w\<lparr> randomPos := randomPos w + 1 \<rparr>"
    using randomIndex_snd[of "Suc (Suc n)" w] by simp
  then show ?case
    by (simp add: Suc.IH r)
qed

lemma shuffle_from_mset:
  "tape_ok w \<Longrightarrow> n < length xs \<Longrightarrow> mset (fst (shuffle_from n xs w)) = mset xs"
proof (induction n arbitrary: xs w)
  case 0
  then show ?case by simp
next
  case (Suc n)
  obtain j w' where r: "randomIndex (Suc (Suc n)) w = (j, w')" by (cases "randomIndex (Suc (Suc n)) w")
  have j: "j < Suc (Suc n)" using randomIndex_less[OF Suc.prems(1), of "Suc (Suc n)"] r by simp
  have w': "tape_ok w'" using randomIndex_snd[of "Suc (Suc n)" w] r Suc.prems(1) by simp
  let ?ys = "xs[Suc n := xs ! j, j := xs ! Suc n]"
  have "mset ?ys = mset xs"
    using j Suc.prems(2) by (simp add: mset_swap)
  moreover have "mset (fst (shuffle_from n ?ys w')) = mset ?ys"
    using Suc.prems(2) by (intro Suc.IH[OF w']) simp
  ultimately show ?case by (simp add: r)
qed

lemma shuffle_mset: "tape_ok w \<Longrightarrow> mset (fst (shuffle xs w)) = mset xs"
  by (cases "xs = []") (simp_all add: shuffle_def shuffle_from_mset)

lemma shuffle_snd: "snd (shuffle xs w) = w\<lparr> randomPos := randomPos w + (length xs - 1) \<rparr>"
  by (simp add: shuffle_def shuffle_from_snd)

lemma floor_nineteen:
  assumes "n \<le> 19"
  shows "nat \<lfloor>(19 / 20 :: rat) * of_nat (n + 1)\<rfloor> = n"
proof -
  have "\<lfloor>(19 / 20 :: rat) * of_nat (n + 1)\<rfloor> = int n"
    using assms by (simp add: floor_eq_iff field_simps)
  then show ?thesis by simp
qed

lemma shuffle_from_still:
  "\<forall>k. randomPos w \<le> k \<and> k < randomPos w + n \<longrightarrow> randomTape w k = 19 / 20 \<Longrightarrow> n \<le> 19 \<Longrightarrow>
   shuffle_from n xs w = (xs, w\<lparr> randomPos := randomPos w + n \<rparr>)"
proof (induction n arbitrary: w)
  case 0
  then show ?case by simp
next
  case (Suc n)
  have t: "randomTape w (randomPos w) = 19 / 20" using Suc.prems(1) by simp
  have r: "randomIndex (Suc (Suc n)) w = (Suc n, w\<lparr> randomPos := randomPos w + 1 \<rparr>)"
    using floor_nineteen[of "Suc n"] Suc.prems(2) by (simp add: randomIndex_def Math_random_def t)
  have "shuffle_from n xs (w\<lparr> randomPos := randomPos w + 1 \<rparr>)
          = (xs, w\<lparr> randomPos := randomPos w + 1 \<rparr>\<lparr> randomPos := randomPos (w\<lparr> randomPos := randomPos w + 1 \<rparr>) + n \<rparr>)"
    using Suc.prems by (intro Suc.IH) auto
  then show ?case by (simp add: r)
qed

lemma shuffle_step:
  assumes "randomTape w = tape" "randomPos w = p" "n = Suc m"
    and "\<lfloor>tape p * of_nat (n + 1)\<rfloor> = int j"
    and "xs[n := xs ! j, j := xs ! n] = ys"
    and "w\<lparr> randomPos := p + 1 \<rparr> = w'"
  shows "shuffle_from n xs w = shuffle_from m ys w'"
  using assms by (auto simp: randomIndex_def Math_random_def)

lemma shuffle_from_still':
  assumes "\<forall>k. randomPos w \<le> k \<and> k < randomPos w + n \<longrightarrow> randomTape w k = 19 / 20" "n \<le> 19"
    and "w\<lparr> randomPos := randomPos w + n \<rparr> = w'"
  shows "shuffle_from n xs w = (xs, w')"
  using shuffle_from_still[OF assms(1,2)] assms(3) by simp

lemma shuffle_still:
  assumes "\<forall>k. randomPos w \<le> k \<longrightarrow> randomTape w k = 19 / 20" "length xs \<le> 20"
  shows "shuffle xs w = (xs, w\<lparr> randomPos := randomPos w + (length xs - 1) \<rparr>)"
  unfolding shuffle_def using assms by (intro shuffle_from_still) auto

lemma deal_shuffle:
  assumes w: "randomTape w = dealTape" "randomPos w = p" and p: "p = 0 \<or> p = 19"
  shows "shuffle [a0, a1, a2, a3, a4, a5, a6, a7, a8, a9, a10, a11, a12, a13, a14, a15, a16, a17, a18, a19] w
         = ([a0, a1, a16, a3, a4, a5, a6, a7, a18, a9, a10, a11, a17, a13, a14, a15, a2, a12, a8, a19],
            w\<lparr> randomPos := p + 19 \<rparr>)"
proof -
  let ?w1 = "w\<lparr> randomPos := p + 1 \<rparr>" and ?w2 = "w\<lparr> randomPos := p + 2 \<rparr>"
  let ?w3 = "w\<lparr> randomPos := p + 3 \<rparr>" and ?w4 = "w\<lparr> randomPos := p + 4 \<rparr>"
  have len: "length [a0, a1, a2, a3, a4, a5, a6, a7, a8, a9, a10, a11, a12, a13, a14, a15, a16, a17, a18, a19] - 1 = 19"
    by simp
  have "shuffle [a0, a1, a2, a3, a4, a5, a6, a7, a8, a9, a10, a11, a12, a13, a14, a15, a16, a17, a18, a19] w
      = shuffle_from 19 [a0, a1, a2, a3, a4, a5, a6, a7, a8, a9, a10, a11, a12, a13, a14, a15, a16, a17, a18, a19] w"
    by (simp only: shuffle_def len)
  also have "\<dots> = shuffle_from 18 [a0, a1, a2, a3, a4, a5, a6, a7, a8, a9, a10, a11, a12, a13, a14, a15, a16, a17, a18, a19] ?w1"
    using p by (intro shuffle_step[where tape = dealTape and p = p and j = 19])
       (auto simp: w dealTape_def floor_eq_iff)
  also have "\<dots> = shuffle_from 17 [a0, a1, a2, a3, a4, a5, a6, a7, a18, a9, a10, a11, a12, a13, a14, a15, a16, a17, a8, a19] ?w2"
    using p by (intro shuffle_step[where tape = dealTape and p = "p + 1" and j = 8])
       (auto simp: w dealTape_def floor_eq_iff)
  also have "\<dots> = shuffle_from 16 [a0, a1, a2, a3, a4, a5, a6, a7, a18, a9, a10, a11, a17, a13, a14, a15, a16, a12, a8, a19] ?w3"
    using p by (intro shuffle_step[where tape = dealTape and p = "p + 2" and j = 12])
       (auto simp: w dealTape_def floor_eq_iff)
  also have "\<dots> = shuffle_from 15 [a0, a1, a16, a3, a4, a5, a6, a7, a18, a9, a10, a11, a17, a13, a14, a15, a2, a12, a8, a19] ?w4"
    using p by (intro shuffle_step[where tape = dealTape and p = "p + 3" and j = 2])
       (auto simp: w dealTape_def floor_eq_iff)
  also have "\<dots> = ([a0, a1, a16, a3, a4, a5, a6, a7, a18, a9, a10, a11, a17, a13, a14, a15, a2, a12, a8, a19],
                      w\<lparr> randomPos := p + 19 \<rparr>)"
    using p by (intro shuffle_from_still') (auto simp: w dealTape_def)
  finally show ?thesis .
qed

lemma upt_20: "[n ..< n + 20] = [n, n + 1, n + 2, n + 3, n + 4, n + 5, n + 6, n + 7, n + 8, n + 9,
     n + 10, n + 11, n + 12, n + 13, n + 14, n + 15, n + 16, n + 17, n + 18, n + 19]"
  by (simp add: upt_rec)

section \<open>The first deal\<close>

lemma PlayerId_funs:
  "f P1 = g P1 \<Longrightarrow> f P2 = g P2 \<Longrightarrow> f = g"
proof (rule ext)
  fix x :: PlayerId
  assume "f P1 = g P1" "f P2 = g P2"
  then show "f x = g x" by (cases x) simp_all
qed

lemma case_PlayerId_upd [simp]:
  "(case_PlayerId a b)(P1 := c) = case_PlayerId c b"
  "(case_PlayerId a b)(P2 := c) = case_PlayerId a c"
  by (rule PlayerId_funs; simp)+

lemma const_PlayerId: "(\<lambda>_. c) = case_PlayerId c c"
  by (rule PlayerId_funs; simp)

lemma createDeck_deal:
  assumes w: "randomTape w = dealTape" "randomPos w = p" and p: "p = 0 \<or> p = 19"
    and n: "cardUidCounter w = n" and h: "heap w = h"
  shows "createDeck DECK_CONFIG_0 w =
           Inr ([n, n + 1, n + 16, n + 3, n + 4, n + 5, n + 6, n + 7, n + 18, n + 9, n + 10, n + 11,
                 n + 17, n + 13, n + 14, n + 15, n + 2, n + 12, n + 8, n + 19],
                w\<lparr> heap := created (deckIds DECK_CONFIG_0) n h, cardUidCounter := n + 20,
                   randomPos := p + 19 \<rparr>)"
proof -
  let ?w1 = "w\<lparr> heap := created (deckIds DECK_CONFIG_0) n h, cardUidCounter := n + 20 \<rparr>"
  have 1: "createAll DECK_CONFIG_0 w = Inr ([n ..< n + 20], ?w1)"
    using createAll_ok[OF config_known n h] by (simp add: length_deckIds_0)
  have 2: "shuffle [n ..< n + 20] ?w1 =
      ([n, n + 1, n + 16, n + 3, n + 4, n + 5, n + 6, n + 7, n + 18, n + 9, n + 10, n + 11,
                 n + 17, n + 13, n + 14, n + 15, n + 2, n + 12, n + 8, n + 19], ?w1\<lparr> randomPos := p + 19 \<rparr>)"
    unfolding upt_20 by (rule deal_shuffle[OF _ _ p]) (simp_all add: w)
  show ?thesis
    by (simp add: createDeck_def 1 2)
qed

lemma redeal_still:
  assumes t: "\<forall>k. randomPos w \<le> k \<longrightarrow> randomTape w k = 19 / 20"
    and len: "length (deck (players w pNum)) + length (hand (players w pNum)) \<le> 20"
  shows "redeal pNum w =
     setPlayer pNum
       ((players w pNum)\<lparr>
          deck := take (length (deck (players w pNum) @ hand (players w pNum)) - 5)
                    (deck (players w pNum) @ hand (players w pNum)),
          hand := drop (length (deck (players w pNum) @ hand (players w pNum)) - 5)
                    (deck (players w pNum) @ hand (players w pNum)) \<rparr>)
       (w\<lparr> randomPos := randomPos w + (length (deck (players w pNum) @ hand (players w pNum)) - 1) \<rparr>)"
proof -
  let ?p = "players w pNum"
  let ?all = "deck ?p @ hand ?p"
  let ?w1 = "setPlayer pNum (?p\<lparr> deck := ?all, hand := [] \<rparr>) w"
  have s: "shuffle ?all ?w1 = (?all, ?w1\<lparr> randomPos := randomPos ?w1 + (length ?all - 1) \<rparr>)"
    using t len by (intro shuffle_still) (simp_all add: setPlayer_def)
  have d: "splice_rest ?all (- int 5) = (drop (length ?all - 5) ?all, take (length ?all - 5) ?all)"
    by (rule splice_rest_last) simp
  show ?thesis
    unfolding redeal_def Let_def
    using s d by (simp add: setPlayer_def drawCards_def)
qed

lemma drawInitialHand_once:
  "someBasic pNum (redeal pNum w) \<Longrightarrow> drawInitialHand pNum w = Some (redeal pNum w)"
  by (subst drawInitialHand.simps) simp

lemma dealTape_late: "23 \<le> k \<Longrightarrow> dealTape k = 19 / 20"
  by (simp add: dealTape_def)

lemma dealHeap_at:
  "r < 20 \<Longrightarrow> dealHeap r = cardOf (deckIds DECK_CONFIG_0 ! r) r"
  "20 \<le> r \<Longrightarrow> r < 40 \<Longrightarrow> dealHeap r = cardOf (deckIds DECK_CONFIG_0 ! (r - 20)) r"
  by (simp_all add: dealHeap_def created_def length_deckIds_0)

lemma dealHeap_cards:
  "dealHeap 2 = cardOf ''base-001'' 2"
  "dealHeap 8 = cardOf ''base-003'' 8"
  "dealHeap 12 = cardOf ''base-005'' 12"
  "dealHeap 15 = cardOf ''base-006'' 15"
  "dealHeap 19 = cardOf ''base-008'' 19"
  "dealHeap 22 = cardOf ''base-001'' 22"
  by (simp_all add: dealHeap_at deckIds_0)

lemma initializeGame_decks:
  assumes "createDeck DECK_CONFIG_0 w = Inr (d1, w1)"
    and "createDeck DECK_CONFIG_0 (setPlayer P1 ((players w1 P1)\<lparr> deck := d1 \<rparr>) w1) = Inr (d2, w2)"
  shows "initializeGame w =
           (case drawInitialHands (setPlayer P2 ((players w2 P2)\<lparr> deck := d2 \<rparr>) w2) of
              None \<Rightarrow> None
            | Some w3 \<Rightarrow> Some (Inr (notify GameInitialized w3)))"
  by (simp add: initializeGame_def assms)

lemma fresh_decks:
  "initializeGame freshGame =
     (case drawInitialHands decksBuilt of None \<Rightarrow> None | Some w3 \<Rightarrow> Some (Inr (notify GameInitialized w3)))"
proof -
  let ?ids = "deckIds DECK_CONFIG_0"
  let ?d1 = "[0, 1, 16, 3, 4, 5, 6, 7, 18, 9, 10, 11, 17, 13, 14, 15, 2, 12, 8, 19 :: nat]"
  let ?d2 = "[20, 21, 36, 23, 24, 25, 26, 27, 38, 29, 30, 31, 37, 33, 34, 35, 22, 32, 28, 39 :: nat]"
  define w1 where "w1 = freshGame\<lparr> heap := created ?ids 0 (\<lambda>_. blank), cardUidCounter := 20, randomPos := 19 \<rparr>"
  define w1' where "w1' = setPlayer P1 ((players w1 P1)\<lparr> deck := ?d1 \<rparr>) w1"
  define w2 where "w2 = w1'\<lparr> heap := dealHeap, cardUidCounter := 40, randomPos := 38 \<rparr>"
  have c1: "createDeck DECK_CONFIG_0 freshGame = Inr (?d1, w1)"
    using createDeck_deal[of freshGame 0 0 "\<lambda>_. blank"]
    by (simp add: freshGame_def newGameState_def w1_def)
  have c2: "createDeck DECK_CONFIG_0 w1' = Inr (?d2, w2)"
    using createDeck_deal[of w1' 19 20 "created ?ids 0 (\<lambda>_. blank)"]
    by (simp add: freshGame_def newGameState_def w1_def w1'_def w2_def setPlayer_def dealHeap_def)
  have b: "setPlayer P2 ((players w2 P2)\<lparr> deck := ?d2 \<rparr>) w2 = decksBuilt"
    by (simp add: decksBuilt_def w2_def w1'_def w1_def freshGame_def newGameState_def setPlayer_def
        createPlayerState_def const_PlayerId numeral_3_eq_3)
  show ?thesis
    using initializeGame_decks[OF c1 c2[unfolded w1'_def]] by (simp only: b)
qed

lemma first_hand:
  "redeal P1 decksBuilt = firstHand" "someBasic P1 firstHand"
  "drawInitialHand P1 decksBuilt = Some firstHand"
proof -
  show 1: "redeal P1 decksBuilt = firstHand"
    by (subst redeal_still) (simp_all add: decksBuilt_def firstHand_def dealTape_late setPlayer_def)
  show 2: "someBasic P1 firstHand"
    by (simp add: someBasic_def firstHand_def dealHeap_cards cardOf_fields)
  from drawInitialHand_once[of P1 decksBuilt] 1 2
  show "drawInitialHand P1 decksBuilt = Some firstHand" by simp
qed

lemma second_hand:
  "drawInitialHand P2 firstHand = Some (dealt\<lparr> dispatched := [] \<rparr>)"
proof -
  have 1: "redeal P2 firstHand = dealt\<lparr> dispatched := [] \<rparr>"
    by (subst redeal_still) (simp_all add: firstHand_def dealt_def dealTape_late setPlayer_def)
  have 2: "someBasic P2 (dealt\<lparr> dispatched := [] \<rparr>)"
    by (simp add: someBasic_def dealt_def dealHeap_cards cardOf_fields)
  from drawInitialHand_once[of P2 firstHand] 1 2 show ?thesis by simp
qed

lemma initializeGame_fresh: "initializeGame freshGame = Some (Inr dealt)"
  by (simp add: fresh_decks drawInitialHands_def first_hand second_hand notify_def dealt_def)

section \<open>A match from the first deal\<close>

lemmas eval_defs = playCard_def playBasic_def playSupporter_def at_index_def splice_def splice_start_def
  Let_def setPlayer_def update_def notify_def indexOf_def setPlayerReady_def startTurn_def drawCards_def
  splice_rest_def

lemma setup_run:
  "run [PlayCard P1 3, PlayCard P1 1, PlayCard P2 1, SetPlayerReady P1, SetPlayerReady P2] dealt = Some turnOne"
  by (simp add: dealt_def turnOne_def eval_defs dealHeap_cards cardOf_fields)

lemma nugget_turnOne:
  "playChickenNugget P1 2 (- 1) turnOne = (True, evolvedOne)"
  by (simp add: turnOne_def evolvedOne_def playChickenNugget_def boardCard_def canAct_def orZero_def
      performEvolution_def eval_defs dealHeap_cards cardOf_fields)

lemma attack_evolvedOne: "attack evolvedOne = wonOne"
  by (simp add: evolvedOne_def wonOne_def attack_def canAct_def getOpponentId_def orZero_def endGame_def
      eval_defs dealHeap_cards cardOf_fields)

section \<open>The states of the example match are reachable\<close>

lemma dealTape_range: "0 \<le> dealTape k \<and> dealTape k < 1"
  by (simp add: dealTape_def)

lemma reachable_run: "reachable w \<Longrightarrow> run as w = Some w' \<Longrightarrow> reachable w'"
proof (induction as arbitrary: w)
  case Nil
  then show ?case by simp
next
  case (Cons a as)
  from Cons.prems(2) obtain w1 where s: "step a w = Some w1" and r: "run as w1 = Some w'"
    by (auto split: option.splits)
  from reachable.call[OF Cons.prems(1) s] have "reachable w1" .
  from Cons.IH[OF this r] show ?case .
qed

lemma reachable_examples:
  "reachable freshGame" "reachable dealt" "reachable turnOne" "reachable evolvedOne" "reachable wonOne"
proof -
  show 0: "reachable freshGame"
    unfolding freshGame_def by (rule reachable.new) (simp add: dealTape_range)
  have "step InitializeGame freshGame = Some dealt"
    by (simp add: initializeGame_fresh)
  from reachable.call[OF 0 this] show 1: "reachable dealt" .
  from reachable_run[OF 1 setup_run] show 2: "reachable turnOne" .
  have "step (PlayChickenNugget P1 2 (- 1)) turnOne = Some evolvedOne"
    by (simp add: nugget_turnOne)
  from reachable.call[OF 2 this] show 3: "reachable evolvedOne" .
  have "step Attack evolvedOne = Some wonOne"
    by (simp add: attack_evolvedOne)
  from reachable.call[OF 3 this] show "reachable wonOne" .
qed

lemma turnOne_fields:
  "phase turnOne = Playing" "currentPlayer turnOne = P1" "\<not> gameOver turnOne" "turnCount turnOne = 1"
  "players turnOne P1 = \<lparr> deck = [0, 1, 16, 3, 4, 5, 6, 7, 18, 9, 10, 11, 17, 13, 14], hand = [15, 12, 19],
           active = Some 8, bench = [Some 2, None, None], points = 0, hasPlayedSupporter = False \<rparr>"
  "heap turnOne 8 = (cardOf ''base-003'' 8)\<lparr> turnPlaced := Some 0 \<rparr>"
  "heap turnOne 2 = (cardOf ''base-001'' 2)\<lparr> turnPlaced := Some 0 \<rparr>"
  "heap turnOne 12 = cardOf ''base-005'' 12"
  "heap turnOne 15 = cardOf ''base-006'' 15"
  "heap turnOne 19 = cardOf ''base-008'' 19"
  by (simp_all add: turnOne_def dealHeap_cards)

section \<open>Evolution and the turn counter\<close>

lemma findIndex_None:
  "findIndex P k0 xs = None \<Longrightarrow> k < length xs \<Longrightarrow> \<not> P (xs ! k) (k0 + k)"
proof (induction xs arbitrary: k0 k)
  case Nil
  then show ?case by simp
next
  case (Cons x xs)
  from Cons.prems(1) have x: "\<not> P x k0" and r: "findIndex P (Suc k0) xs = None"
    by (auto split: if_splits)
  show ?case
  proof (cases k)
    case 0
    with x show ?thesis by simp
  next
    case (Suc j)
    with Cons.prems(2) have "j < length xs" by simp
    from Cons.IH[OF r this] Suc show ?thesis by simp
  qed
qed

text \<open>
  What holds of the turn rules: \<open>evolve\<close> changes nothing on turn 1 or earlier, and
  neither \<open>evolve\<close> nor \<open>playChickenNugget\<close> succeeds on a target whose \<open>turnPlaced\<close> is
  the current turn counter.
\<close>

lemma evolution_blocked:
  "turnCount w \<le> 1 \<Longrightarrow> evolve player h t w = w"
  "boardCard (players w player) t = Some target \<Longrightarrow> turnPlaced (heap w target) = Some (turnCount w) \<Longrightarrow>
     evolve player h t w = w"
  "boardCard (players w player) t = Some target \<Longrightarrow> turnPlaced (heap w target) = Some (turnCount w) \<Longrightarrow>
     playChickenNugget player h t w = (False, w)"
  by (auto simp: evolve_def playChickenNugget_def Let_def orZero_def split: option.splits)

text \<open>
  C2. The claim is that neither \<open>evolve\<close> nor \<open>playChickenNugget\<close> succeeds when the turn
  counter is 1 or less. \<open>playChickenNugget\<close> does not test the turn counter, as \<open>evolve\<close>
  does: on turn 1, for the player to act, with a basic target placed during setup (its
  \<open>turnPlaced\<close> is 0 or absent) and a card in hand, at an index other than \<open>handIndex\<close>,
  whose \<open>evolvesFromBasic\<close> is the target's id, \<open>playChickenNugget\<close> returns true,
  dispatches the state update and puts an evolved card into the target's slot. The witness
  is the turn-1 state of the example match, reached from a new game by \<open>initializeGame\<close>,
  three \<open>playCard\<close> and two \<open>setPlayerReady\<close>.
\<close>

theorem nugget_on_turn_one:
  assumes act: "canAct player w" and one: "turnCount w = 1"
    and target: "boardCard (players w player) t = Some target"
    and basic: "isBasic (heap w target)"
    and placed: "orZero (turnPlaced (heap w target)) \<le> 0"
    and k: "k < length (hand (players w player))" "int k \<noteq> h"
      "evolvesFromBasic (heap w (hand (players w player) ! k)) = Some (id' (heap w target))"
  shows "fst (playChickenNugget player h t w)
       \<and> dispatched (snd (playChickenNugget player h t w)) = dispatched w @ [GameStateUpdated]
       \<and> (\<exists>e. boardCard (players (snd (playChickenNugget player h t w)) player) t = Some e
              \<and> evolvesFromBasic (heap w e) = Some (id' (heap w target)))"
proof -
  let ?P = "\<lambda>c i. int i \<noteq> h \<and> evolvesFromBasic (heap w c) = Some (id' (heap w target))"
  have "findIndex ?P 0 (hand (players w player)) \<noteq> None"
    using findIndex_None[of ?P 0 "hand (players w player)" k] k by auto
  then obtain j where j: "findIndex ?P 0 (hand (players w player)) = Some j" by auto
  from findIndex_Some[OF j] have ev: "evolvesFromBasic (heap w (hand (players w player) ! j)) = Some (id' (heap w target))"
    by simp
  let ?hand2 = "snd (splice (snd (splice (hand (players w player)) (max h (int j)) 1 [])) (min h (int j)) 1 [])"
  have eq: "playChickenNugget player h t w =
      (True, performEvolution player (hand (players w player) ! j) target t
               (setPlayer player ((players w player)\<lparr> hand := ?hand2 \<rparr>) w))"
    using act one target basic placed j by (simp add: playChickenNugget_def Let_def)
  have r: "t = - 1 \<or> (0 \<le> t \<and> t < int (length (bench (players (setPlayer player ((players w player)\<lparr> hand := ?hand2 \<rparr>) w) player))))"
    using boardCard_in_range[OF target] by (simp add: setPlayer_def)
  have d: "dispatched (performEvolution player e target t w') = dispatched w' @ [GameStateUpdated]" for e w'
    by (simp add: performEvolution_def Let_def update_def notify_def setPlayer_def)
  show ?thesis
    unfolding eq using boardCard_performEvolution[OF r] ev
    by (auto simp: d setPlayer_def)
qed

theorem nugget_on_turn_one_witness:
  "reachable turnOne \<and> canAct P1 turnOne \<and> turnCount turnOne = 1
   \<and> boardCard (players turnOne P1) (- 1) = Some 8
   \<and> hand (players turnOne P1) ! 2 = 19 \<and> id' (heap turnOne 19) = ''base-008''
   \<and> fst (playChickenNugget P1 2 (- 1) turnOne)
   \<and> dispatched (snd (playChickenNugget P1 2 (- 1) turnOne)) = dispatched turnOne @ [GameStateUpdated]"
proof -
  have h: "canAct P1 turnOne" "turnCount turnOne = 1" "boardCard (players turnOne P1) (- 1) = Some 8"
    "isBasic (heap turnOne 8)" "orZero (turnPlaced (heap turnOne 8)) \<le> 0"
    "1 < length (hand (players turnOne P1))" "int 1 \<noteq> 2"
    "evolvesFromBasic (heap turnOne (hand (players turnOne P1) ! 1)) = Some (id' (heap turnOne 8))"
    by (simp_all add: turnOne_fields canAct_def boardCard_def cardOf_fields orZero_def)
  from nugget_on_turn_one[OF h] reachable_examples(3) h(1,2,3) show ?thesis
    by (simp add: turnOne_fields cardOf_fields)
qed

section \<open>A basic creature and a full board\<close>

lemma findIndex_absent:
  "\<forall>k < length xs. \<not> P (xs ! k) (k0 + k) \<Longrightarrow> findIndex P k0 xs = None"
proof (induction xs arbitrary: k0)
  case Nil
  then show ?case by simp
next
  case (Cons x xs)
  from Cons.prems have x: "\<not> P x k0" by force
  have "\<forall>k < length xs. \<not> P (xs ! k) (Suc k0 + k)"
  proof (intro allI impI)
    fix k assume "k < length xs"
    then have "Suc k < length (x # xs)" by simp
    from Cons.prems[rule_format, OF this] show "\<not> P (xs ! k) (Suc k0 + k)" by simp
  qed
  from Cons.IH[OF this] x show ?case by simp
qed

lemma indexOf_absent: "v \<notin> set xs \<Longrightarrow> indexOf xs v = None"
  unfolding indexOf_def by (rule findIndex_absent) auto

lemma reinsert:
  "i < length xs \<Longrightarrow>
   snd (splice (take i xs @ drop (Suc i) xs) (int i) 0 [xs ! i]) = xs"
proof -
  assume i: "i < length xs"
  then have k: "splice_start (int i) (length xs - Suc 0) = i"
    by (auto simp: splice_start_def)
  have "take i xs @ xs ! i # drop (Suc i) xs = xs"
    using i by (simp add: id_take_nth_drop[symmetric])
  then show ?thesis
    using i by (simp add: splice_def Let_def k min_def)
qed

lemma fullBoard_fields:
  "phase fullBoard = Playing" "currentPlayer fullBoard = P1" "\<not> gameOver fullBoard" "turnCount fullBoard = 3"
  "players fullBoard P1 = \<lparr> deck = [], hand = [4], active = Some 0,
           bench = [Some 1, Some 2, Some 3], points = 0, hasPlayedSupporter = False \<rparr>"
  "heap fullBoard 4 = cardOf ''base-003'' 4" "dispatched fullBoard = []"
  by (simp_all add: fullBoard_def fullHeap_def)

lemma turnPlaced_cardOf: "turnPlaced (cardOf k n) = None"
  by (simp add: cardOf_def blank_def CARD_DATA_def)

text \<open>
  C4. The claim is that \<open>playCard\<close> on a basic creature fails atomically when the active slot
  and all three bench slots are occupied: the card stays in hand at its index, no event is
  dispatched and nothing visible changes, no field of the card included. What the code does:
  the hand, the board, the events and everything else are as before, but the card's
  \<open>turnPlaced\<close> is the current turn counter: \<open>_playBasic\<close> stamps the card before it looks
  for a free slot, and then only puts the card back into the hand. In the witness a Lazycat
  that was never placed has \<open>turnPlaced\<close> 3 after the failed call.
\<close>

theorem playCard_full_board:
  assumes go: "\<not> gameOver w" and turn: "phase w = Playing \<longrightarrow> currentPlayer w = player"
    and c: "at_index (hand (players w player)) handIndex = Some c"
    and kind: "\<not> isSupporter (heap w c)" "id' (heap w c) \<noteq> ''base-007''"
      "id' (heap w c) \<noteq> ''base-008''" "isBasic (heap w c)"
    and act: "active (players w player) \<noteq> None"
    and full: "length (bench (players w player)) = 3" "None \<notin> set (bench (players w player))"
  shows "playCard player handIndex w
           = w\<lparr> heap := (heap w)(c := (heap w c)\<lparr> turnPlaced := Some (turnCount w) \<rparr>) \<rparr>"
proof -
  let ?p = "players w player"
  from c have i: "0 \<le> handIndex" "handIndex < int (length (hand ?p))" "hand ?p ! nat handIndex = c"
    by (simp_all add: at_index_Some)
  then have n: "nat handIndex < length (hand ?p)" by simp
  have s: "splice (hand ?p) handIndex (Suc 0) [] = ([c], take (nat handIndex) (hand ?p) @ drop (Suc (nat handIndex)) (hand ?p))"
    using splice_one[OF i(1,2)] i(3) by simp
  have r: "snd (splice (take (nat handIndex) (hand ?p) @ drop (Suc (nat handIndex)) (hand ?p)) handIndex 0 [c]) = hand ?p"
    using reinsert[OF n] i by simp
  have b: "playBasic player handIndex w
         = (False, w\<lparr> heap := (heap w)(c := (heap w c)\<lparr> turnPlaced := Some (turnCount w) \<rparr>) \<rparr>)"
    using act indexOf_absent[OF full(2)]
    by (auto simp: playBasic_def Let_def s r setPlayer_def)
  show ?thesis
    using go turn c kind by (auto simp: playCard_def Let_def b)
qed

theorem playCard_full_board_witness:
  "at_index (hand (players fullBoard P1)) 0 = Some 4
   \<and> active (players fullBoard P1) = Some 0
   \<and> bench (players fullBoard P1) = [Some 1, Some 2, Some 3]
   \<and> turnPlaced (heap fullBoard 4) = None
   \<and> turnPlaced (heap (playCard P1 0 fullBoard) 4) = Some 3
   \<and> hand (players (playCard P1 0 fullBoard) P1) = [4]
   \<and> dispatched (playCard P1 0 fullBoard) = []
   \<and> playCard P1 0 fullBoard \<noteq> fullBoard"
proof -
  have h: "\<not> gameOver fullBoard" "phase fullBoard = Playing \<longrightarrow> currentPlayer fullBoard = P1"
    "at_index (hand (players fullBoard P1)) 0 = Some 4"
    "\<not> isSupporter (heap fullBoard 4)" "id' (heap fullBoard 4) \<noteq> ''base-007''"
    "id' (heap fullBoard 4) \<noteq> ''base-008''" "isBasic (heap fullBoard 4)"
    "active (players fullBoard P1) \<noteq> None"
    "length (bench (players fullBoard P1)) = 3" "None \<notin> set (bench (players fullBoard P1))"
    by (simp_all add: fullBoard_fields at_index_def cardOf_fields)
  have t: "turnPlaced (heap (playCard P1 0 fullBoard) 4) = Some 3"
    unfolding playCard_full_board[OF h] by (simp add: fullBoard_fields)
  then have "playCard P1 0 fullBoard \<noteq> fullBoard"
    by (auto simp: fullBoard_fields turnPlaced_cardOf)
  with t h(3) show ?thesis
    unfolding playCard_full_board[OF h] by (simp add: fullBoard_fields turnPlaced_cardOf)
qed

section \<open>The initial hands\<close>

lemma setPlayer_fields:
  "players (setPlayer i p w) = (players w)(i := p)"
  "phase (setPlayer i p w) = phase w" "currentPlayer (setPlayer i p w) = currentPlayer w"
  "gameOver (setPlayer i p w) = gameOver w" "winner (setPlayer i p w) = winner w"
  "turnCount (setPlayer i p w) = turnCount w" "setupReady (setPlayer i p w) = setupReady w"
  "heap (setPlayer i p w) = heap w" "cardUidCounter (setPlayer i p w) = cardUidCounter w"
  "dispatched (setPlayer i p w) = dispatched w" "randomTape (setPlayer i p w) = randomTape w"
  "randomPos (setPlayer i p w) = randomPos w"
  by (simp_all add: setPlayer_def)

lemma drawInitialHand_result:
  assumes r: "drawInitialHand pNum w = Some w'" and i: "I w"
    and s: "\<And>v. I v \<Longrightarrow> I (redeal pNum v)"
  shows "someBasic pNum w' \<and> (\<exists>v. I v \<and> w' = redeal pNum v)"
proof -
  let ?P = "\<lambda>q v y. q = pNum \<longrightarrow> I v \<longrightarrow> someBasic q y \<and> (\<exists>u. I u \<and> y = redeal q u)"
  have "?P pNum w w'"
  proof (rule drawInitialHand.raw_induct[where P = ?P, OF _ r])
    fix f q v y
    assume ih: "\<And>q v y. f q v = Some y \<Longrightarrow> ?P q v y"
      and e: "(if \<not> someBasic q (redeal q v) then f q (redeal q v) else Some (redeal q v)) = Some y"
    show "?P q v y"
    proof (intro impI)
      assume q: "q = pNum" and v: "I v"
      show "someBasic q y \<and> (\<exists>u. I u \<and> y = redeal q u)"
      proof (cases "someBasic q (redeal q v)")
        case True
        with e have "y = redeal q v" by simp
        with True v show ?thesis by auto
      next
        case False
        with e have "f q (redeal q v) = Some y" by simp
        from ih[OF this] s[OF v] q show ?thesis by simp
      qed
    qed
  qed
  with i show ?thesis by simp
qed

lemma drawInitialHand_never:
  assumes i: "I w"
    and s: "\<And>v. I v \<Longrightarrow> I (redeal pNum v) \<and> \<not> someBasic pNum (redeal pNum v)"
  shows "drawInitialHand pNum w = None"
proof (cases "drawInitialHand pNum w")
  case None
  then show ?thesis .
next
  case (Some w')
  from drawInitialHand_result[of pNum w w' I, OF Some i] s
  obtain v where "someBasic pNum w'" "I v" "w' = redeal pNum v" by blast
  with s[of v] show ?thesis by simp
qed

lemma redeal_eq:
  "redeal pNum w =
     (let all = deck (players w pNum) @ hand (players w pNum);
          d = fst (shuffle all (setPlayer pNum ((players w pNum)\<lparr> deck := all, hand := [] \<rparr>) w))
      in w\<lparr> players := (players w)(pNum := (players w pNum)\<lparr> deck := take (length d - 5) d, hand := drop (length d - 5) d \<rparr>),
            randomPos := randomPos w + (length all - 1) \<rparr>)"
proof -
  let ?all = "deck (players w pNum) @ hand (players w pNum)"
  let ?w1 = "setPlayer pNum ((players w pNum)\<lparr> deck := ?all, hand := [] \<rparr>) w"
  obtain d w2 where sh: "shuffle ?all ?w1 = (d, w2)" by (cases "shuffle ?all ?w1")
  have w2: "w2 = ?w1\<lparr> randomPos := randomPos ?w1 + (length ?all - 1) \<rparr>"
    using shuffle_snd[of ?all ?w1] sh by simp
  have d: "splice_rest d (- int 5) = (drop (length d - 5) d, take (length d - 5) d)"
    by (rule splice_rest_last) simp
  have "redeal pNum w = drawCards pNum 5 (setPlayer pNum ((players w2 pNum)\<lparr> deck := d \<rparr>) w2)"
    by (simp add: redeal_def Let_def sh setPlayer_fields)
  also have "\<dots> = w\<lparr> players := (players w)(pNum := (players w pNum)\<lparr> deck := take (length d - 5) d, hand := drop (length d - 5) d \<rparr>),
            randomPos := randomPos w + (length ?all - 1) \<rparr>"
    using d by (simp add: drawCards_def w2 setPlayer_def)
  finally show ?thesis
    using sh by (simp add: Let_def)
qed

lemma redeal_fields:
  "phase (redeal p w) = phase w" "currentPlayer (redeal p w) = currentPlayer w"
  "gameOver (redeal p w) = gameOver w" "winner (redeal p w) = winner w"
  "turnCount (redeal p w) = turnCount w" "setupReady (redeal p w) = setupReady w"
  "heap (redeal p w) = heap w" "cardUidCounter (redeal p w) = cardUidCounter w"
  "dispatched (redeal p w) = dispatched w" "randomTape (redeal p w) = randomTape w"
  "q \<noteq> p \<Longrightarrow> players (redeal p w) q = players w q"
  "active (players (redeal p w) q) = active (players w q)"
  "bench (players (redeal p w) q) = bench (players w q)"
  "points (players (redeal p w) q) = points (players w q)"
  "hasPlayedSupporter (players (redeal p w) q) = hasPlayedSupporter (players w q)"
  by (simp_all add: redeal_eq Let_def)

lemma tape_ok_cong: "randomTape w' = randomTape w \<Longrightarrow> tape_ok w' = tape_ok w"
  by (simp add: tape_ok_def)

lemma redeal_cards:
  assumes "tape_ok w"
  shows "mset (hand (players (redeal p w) p) @ deck (players (redeal p w) p))
           = mset (hand (players w p) @ deck (players w p))"
    and "length (hand (players (redeal p w) p)) = min 5 (length (hand (players w p)) + length (deck (players w p)))"
proof -
  let ?all = "deck (players w p) @ hand (players w p)"
  let ?w1 = "setPlayer p ((players w p)\<lparr> deck := ?all, hand := [] \<rparr>) w"
  let ?d = "fst (shuffle ?all ?w1)"
  have t: "tape_ok ?w1" using assms by (simp add: tape_ok_def setPlayer_def)
  have m: "mset ?d = mset ?all" by (rule shuffle_mset[OF t])
  then have l: "length ?d = length ?all" by (rule mset_eq_length)
  have "mset (drop (length ?d - 5) ?d @ take (length ?d - 5) ?d) = mset (take (length ?d - 5) ?d @ drop (length ?d - 5) ?d)"
    by (simp only: mset_append add.commute)
  then have "mset (drop (length ?d - 5) ?d @ take (length ?d - 5) ?d) = mset ?d"
    by (simp only: append_take_drop_id)
  then show "mset (hand (players (redeal p w) p) @ deck (players (redeal p w) p))
           = mset (hand (players w p) @ deck (players w p))"
    using m by (simp add: redeal_eq Let_def)
  show "length (hand (players (redeal p w) p)) = min 5 (length (hand (players w p)) + length (deck (players w p)))"
    using l by (simp add: redeal_eq Let_def min_def)
qed

text \<open>
  C7 (as amended). Whenever the retry loop of a player in \<open>drawInitialHands\<close> terminates,
  started with 20 cards in the player's deck and hand together and under a random source
  that keeps its contract, that player has a hand of exactly 5 cards with at least one basic
  creature among them; hand and deck together hold the same 20 card objects as before, and
  no card object has changed. That the loop terminates is not part of the statement: it
  does for the draws of the witness and does not for others.
\<close>

theorem initial_hand:
  assumes t: "tape_ok w"
    and n: "length (deck (players w pNum)) + length (hand (players w pNum)) = 20"
    and r: "drawInitialHand pNum w = Some w'"
  shows "length (hand (players w' pNum)) = 5
       \<and> (\<exists>c \<in> set (hand (players w' pNum)). isBasic (heap w' c))
       \<and> mset (hand (players w' pNum) @ deck (players w' pNum))
           = mset (hand (players w pNum) @ deck (players w pNum))
       \<and> heap w' = heap w"
proof -
  let ?I = "\<lambda>v. tape_ok v
              \<and> mset (hand (players v pNum) @ deck (players v pNum))
                  = mset (hand (players w pNum) @ deck (players w pNum))
              \<and> heap v = heap w"
  have step: "?I (redeal pNum v)" if "?I v" for v
    using that redeal_cards(1)[of v pNum] tape_ok_cong[of "redeal pNum v" v]
    by (simp add: redeal_fields)
  have "?I w" using t by simp
  from drawInitialHand_result[of pNum w w' ?I, OF r this step]
  obtain v where b: "someBasic pNum w'" and v: "?I v" and w': "w' = redeal pNum v"
    by blast
  from v have "size (mset (hand (players v pNum) @ deck (players v pNum)))
             = size (mset (hand (players w pNum) @ deck (players w pNum)))"
    by simp
  then have l: "length (hand (players v pNum)) + length (deck (players v pNum)) = 20"
    using n by simp
  have 1: "length (hand (players w' pNum)) = 5"
    using redeal_cards(2)[of v pNum] v l by (simp add: w')
  have 2: "\<exists>c \<in> set (hand (players w' pNum)). isBasic (heap w' c)"
    using b by (simp add: someBasic_def list_ex_iff)
  from step[OF v] 1 2 show ?thesis by (simp add: w')
qed

lemma createDeck_still:
  assumes t: "\<forall>k. randomPos w \<le> k \<longrightarrow> randomTape w k = 19 / 20"
    and n: "cardUidCounter w = n" and h: "heap w = h"
  shows "createDeck DECK_CONFIG_0 w =
           Inr ([n ..< n + 20],
                w\<lparr> heap := created (deckIds DECK_CONFIG_0) n h, cardUidCounter := n + 20,
                   randomPos := randomPos w + 19 \<rparr>)"
proof -
  let ?w1 = "w\<lparr> heap := created (deckIds DECK_CONFIG_0) n h, cardUidCounter := n + 20 \<rparr>"
  have 1: "createAll DECK_CONFIG_0 w = Inr ([n ..< n + 20], ?w1)"
    using createAll_ok[OF config_known n h] by (simp add: length_deckIds_0)
  have 2: "shuffle [n ..< n + 20] ?w1 = ([n ..< n + 20], ?w1\<lparr> randomPos := randomPos ?w1 + (length [n ..< n + 20] - 1) \<rparr>)"
    using t by (intro shuffle_still) simp_all
  show ?thesis
    by (simp add: createDeck_def 1 2)
qed

lemma stuck_decks:
  "initializeGame stuckGame =
     (case drawInitialHands stuckDecks of None \<Rightarrow> None | Some w3 \<Rightarrow> Some (Inr (notify GameInitialized w3)))"
proof -
  let ?ids = "deckIds DECK_CONFIG_0"
  define w1 where "w1 = stuckGame\<lparr> heap := created ?ids 0 (\<lambda>_. blank), cardUidCounter := 20, randomPos := 19 \<rparr>"
  define w1' where "w1' = setPlayer P1 ((players w1 P1)\<lparr> deck := [0 ..< 20] \<rparr>) w1"
  define w2 where "w2 = w1'\<lparr> heap := dealHeap, cardUidCounter := 40, randomPos := 38 \<rparr>"
  have c1: "createDeck DECK_CONFIG_0 stuckGame = Inr ([0 ..< 20], w1)"
    using createDeck_still[of stuckGame 0 "\<lambda>_. blank"]
    by (simp add: stuckGame_def newGameState_def w1_def)
  have c2: "createDeck DECK_CONFIG_0 w1' = Inr ([20 ..< 40], w2)"
    using createDeck_still[of w1' 20 "created ?ids 0 (\<lambda>_. blank)"]
    by (simp add: stuckGame_def newGameState_def w1_def w1'_def w2_def setPlayer_def dealHeap_def)
  have b: "setPlayer P2 ((players w2 P2)\<lparr> deck := [20 ..< 40] \<rparr>) w2 = stuckDecks"
    by (simp add: stuckDecks_def w2_def w1'_def w1_def stuckGame_def newGameState_def setPlayer_def
        createPlayerState_def const_PlayerId numeral_3_eq_3)
  show ?thesis
    using initializeGame_decks[OF c1 c2[unfolded w1'_def]] by (simp only: b)
qed

lemma dealHeap_tail: "15 \<le> c \<Longrightarrow> c < 20 \<Longrightarrow> \<not> isBasic (dealHeap c)"
proof -
  assume "15 \<le> c" "c < 20"
  then have "c = 15 \<or> c = 16 \<or> c = 17 \<or> c = 18 \<or> c = 19" by arith
  then show ?thesis
    by (auto simp: dealHeap_at deckIds_0 cardOf_fields)
qed

lemma stuck_loop: "drawInitialHand P1 stuckDecks = None"
proof -
  let ?I = "\<lambda>v. randomTape v = (\<lambda>_. 19 / 20) \<and> heap v = dealHeap
              \<and> deck (players v P1) @ hand (players v P1) = [0 ..< 20]"
  have i: "?I stuckDecks" by (simp add: stuckDecks_def)
  have s: "?I (redeal P1 v) \<and> \<not> someBasic P1 (redeal P1 v)" if v: "?I v" for v
  proof -
    from v have "length (deck (players v P1) @ hand (players v P1)) = length [0 ..< 20 :: nat]"
      by (simp only:)
    then have l: "length (deck (players v P1)) + length (hand (players v P1)) = 20"
      by simp
    have r: "hand (players (redeal P1 v) P1) = [15 ..< 20]" "deck (players (redeal P1 v) P1) = [0 ..< 15]"
      using v l by (simp_all add: redeal_still setPlayer_fields drop_upt take_upt)
    have "[0 ..< 15] @ [15 ..< 20] = [0 ..< 20]"
      using upt_add_eq_append[of 0 15 5] by simp
    with r v show ?thesis
      by (auto simp: redeal_fields someBasic_def list_ex_iff dealHeap_tail)
  qed
  show ?thesis by (rule drawInitialHand_never[of ?I, OF i s])
qed

lemma dealTape_ok: "tape_ok decksBuilt"
  by (simp add: tape_ok_def decksBuilt_def dealTape_def)

theorem initial_hand_witness:
  "tape_ok decksBuilt
   \<and> length (deck (players decksBuilt P1)) + length (hand (players decksBuilt P1)) = 20
   \<and> drawInitialHand P1 decksBuilt = Some firstHand
   \<and> length (hand (players firstHand P1)) = 5
   \<and> hand (players firstHand P1) ! 1 = 2 \<and> isBasic (heap firstHand 2)
   \<and> mset (hand (players firstHand P1) @ deck (players firstHand P1)) = mset (deck (players decksBuilt P1))"
proof -
  have n: "length (deck (players decksBuilt P1)) + length (hand (players decksBuilt P1)) = 20"
    "hand (players decksBuilt P1) = []"
    by (simp_all add: decksBuilt_def)
  have h: "hand (players firstHand P1) ! 1 = 2" "isBasic (heap firstHand 2)"
    by (simp_all add: firstHand_def dealHeap_cards cardOf_fields)
  from initial_hand[OF dealTape_ok n(1) first_hand(3)] dealTape_ok n first_hand(3) h
  show ?thesis by simp
qed

text \<open>
  The loop need not terminate, although the deck holds basic creatures: when \<open>Math.random\<close>
  returns 19/20 at every call, each shuffle of 20 cards keeps their order, the five cards
  drawn are always the last five of the deck list (a Panda's Plan, two Coach Whistle and two
  Chicken Nugget, none basic), and \<open>initializeGame\<close> never returns.
\<close>

theorem initial_hand_may_never_come:
  "tape_ok stuckDecks
   \<and> length (deck (players stuckDecks P1)) = 20 \<and> hand (players stuckDecks P1) = []
   \<and> isBasic (heap stuckDecks (deck (players stuckDecks P1) ! 0))
   \<and> drawInitialHand P1 stuckDecks = None
   \<and> initializeGame stuckGame = None"
proof -
  have 1: "tape_ok stuckDecks" by (simp add: tape_ok_def stuckDecks_def)
  have 2: "length (deck (players stuckDecks P1)) = 20" "hand (players stuckDecks P1) = []"
    by (simp_all add: stuckDecks_def)
  have 3: "isBasic (heap stuckDecks (deck (players stuckDecks P1) ! 0))"
    by (simp add: stuckDecks_def dealHeap_at deckIds_0 cardOf_fields)
  have 4: "initializeGame stuckGame = None"
    by (simp add: stuck_decks drawInitialHands_def stuck_loop)
  from 1 2 3 4 stuck_loop show ?thesis by simp
qed

section \<open>Coach Whistle\<close>

lemma basicIndices_mem:
  "j \<in> set (basicIndices w d) \<longleftrightarrow> j < length d \<and> isBasic (heap w (d ! j))"
  by (auto simp: basicIndices_def)

lemma basicIndices_empty:
  "basicIndices w d = [] \<longleftrightarrow> (\<forall>r \<in> set d. \<not> isBasic (heap w r))"
  by (fastforce simp: basicIndices_def filter_empty_conv in_set_conv_nth)

lemma mset_without_nth:
  "j < length d \<Longrightarrow> mset (take j d @ drop (Suc j) d) = mset d - {#d ! j#}"
proof -
  assume "j < length d"
  then have "d = take j d @ d ! j # drop (Suc j) d" by (rule id_take_nth_drop)
  then have "mset d = mset (take j d @ drop (Suc j) d) + {#d ! j#}"
    by (metis mset.simps(2) mset_append union_mset_add_mset_right add_mset_add_single)
  then show ?thesis by simp
qed

lemma basicIndices_cards:
  "map (nth d) (basicIndices w d) = filter (\<lambda>r. isBasic (heap w r)) d"
proof -
  have "filter (\<lambda>r. isBasic (heap w r)) (map (nth d) [0 ..< length d])
          = map (nth d) (filter ((\<lambda>r. isBasic (heap w r)) \<circ> nth d) [0 ..< length d])"
    by (rule filter_map)
  then show ?thesis by (simp add: basicIndices_def map_nth comp_def)
qed

lemma basicIndices_length:
  "length (basicIndices w d) = length (filter (\<lambda>r. isBasic (heap w r)) d)"
  using arg_cong[OF basicIndices_cards[of d w], of length] by simp

lemma playCoachWhistle_shape:
  assumes t: "tape_ok w" and ph: "phase w = Playing"
    and c: "at_index (hand (players w player)) handIndex = Some c"
    and ne: "basicIndices w (deck (players w player)) \<noteq> []"
    and j: "j = basicIndices w (deck (players w player))
                  ! fst (randomIndex (length (basicIndices w (deck (players w player)))) w)"
    and w1: "w1 = snd (randomIndex (length (basicIndices w (deck (players w player)))) w)"
    and rest: "rest = take j (deck (players w player)) @ drop (Suc j) (deck (players w player))"
  shows "j < length (deck (players w player))" "isBasic (heap w (deck (players w player) ! j))"
    "playCoachWhistle player handIndex w =
       (True, setPlayer player ((players w player)\<lparr>
          hand := take (nat handIndex) (hand (players w player))
                  @ drop (Suc (nat handIndex)) (hand (players w player)) @ [deck (players w player) ! j],
          deck := fst (shuffle rest w1) \<rparr>) (snd (shuffle rest w1)))"
proof -
  let ?p = "players w player"
  let ?idxs = "basicIndices w (deck ?p)"
  from c have i: "0 \<le> handIndex" "handIndex < int (length (hand ?p))" by (simp_all add: at_index_Some)
  have s: "splice (hand ?p) handIndex (Suc 0) [] = ([hand ?p ! nat handIndex], take (nat handIndex) (hand ?p) @ drop (Suc (nat handIndex)) (hand ?p))"
    using splice_one[OF i] by simp
  obtain k where r: "randomIndex (length ?idxs) w = (k, w1)"
    using w1 by (cases "randomIndex (length ?idxs) w") simp
  have k: "k < length ?idxs" using randomIndex_less[OF t, of "length ?idxs"] ne r by simp
  have jk: "j = ?idxs ! k" using j r by simp
  then have "j \<in> set ?idxs" using k by simp
  then show jl: "j < length (deck ?p)" and "isBasic (heap w (deck ?p ! j))"
    by (simp_all add: basicIndices_mem)
  have sd: "splice (deck ?p) (int j) (Suc 0) [] = ([deck ?p ! j], rest)"
    using splice_one[of "int j" "deck ?p"] jl rest by simp
  show "playCoachWhistle player handIndex w =
       (True, setPlayer player (?p\<lparr>
          hand := take (nat handIndex) (hand ?p) @ drop (Suc (nat handIndex)) (hand ?p) @ [deck ?p ! j],
          deck := fst (shuffle rest w1) \<rparr>) (snd (shuffle rest w1)))"
    using ph ne by (simp add: playCoachWhistle_def Let_def s r jk[symmetric] sd case_prod_beta)
qed

lemma one_basic_left:
  assumes m: "mset d' = mset d - {#b#}" and b: "b \<in> set d" "P b"
  shows "length (filter P d') + 1 = length (filter P d)"
proof -
  have "mset (filter P d') = filter_mset P (mset d')" by simp
  also have "\<dots> = filter_mset P (mset d - {#b#})" by (simp only: m)
  also have "\<dots> = filter_mset P (mset d) - filter_mset P {#b#}" by (rule filter_diff_mset)
  also have "\<dots> = mset (filter P d) - {#b#}" using b(2) by simp
  finally have e: "mset (filter P d') = mset (filter P d) - {#b#}" .
  have bm: "b \<in># mset (filter P d)" using b by simp
  have "length (filter P d') = size (mset (filter P d'))" by (simp only: size_mset)
  also have "\<dots> = size (mset (filter P d) - {#b#})" by (simp only: e)
  also have "\<dots> = size (mset (filter P d)) - 1" using bm by (rule size_Diff_singleton)
  also have "\<dots> = length (filter P d) - 1" by (simp only: size_mset)
  finally have l: "length (filter P d') = length (filter P d) - 1" .
  have "filter P d \<noteq> []" using b by (auto simp add: filter_empty_conv)
  then have "0 < length (filter P d)" by simp
  with l show ?thesis by simp
qed


text \<open>
  C8. When a Coach Whistle is played in the playing phase, by the player to act, with a deck
  of exactly 2 basic and 2 other cards, and the random source keeps its contract: the card at
  the index \<open>j\<close> that \<open>Math.random\<close> picks among the indices of the two basic cards is added at
  the end of the hand; the Coach Whistle has left the hand; the deck is \<open>shuffle\<close> of its
  other three cards, run on the random source after that first draw, so it holds these three
  cards, one of them basic; no card object changes, three random numbers are used and one
  state update is dispatched.
\<close>

theorem coach_whistle:
  assumes t: "tape_ok w" and ph: "phase w = Playing" and cur: "currentPlayer w = player"
    and go: "\<not> gameOver w"
    and c: "at_index (hand (players w player)) handIndex = Some c"
    and kind: "\<not> isSupporter (heap w c)" "id' (heap w c) = ''base-007''"
    and four: "length (deck (players w player)) = 4"
    and two: "length (filter (\<lambda>r. isBasic (heap w r)) (deck (players w player))) = 2"
  shows "let d = deck (players w player);
             j = basicIndices w d ! fst (randomIndex 2 w);
             rest = take j d @ drop (Suc j) d;
             w' = playCard player handIndex w
         in j < 4 \<and> isBasic (heap w (d ! j))
          \<and> hand (players w' player)
              = take (nat handIndex) (hand (players w player))
                @ drop (Suc (nat handIndex)) (hand (players w player)) @ [d ! j]
          \<and> deck (players w' player) = fst (shuffle rest (snd (randomIndex 2 w)))
          \<and> mset (deck (players w' player)) = mset d - {#d ! j#}
          \<and> length (deck (players w' player)) = 3
          \<and> length (filter (\<lambda>r. isBasic (heap w' r)) (deck (players w' player))) = 1
          \<and> heap w' = heap w
          \<and> dispatched w' = dispatched w @ [GameStateUpdated]
          \<and> randomPos w' = randomPos w + 3"
proof -
  let ?d = "deck (players w player)"
  define j where "j = basicIndices w ?d ! fst (randomIndex 2 w)"
  define w1 where "w1 = snd (randomIndex 2 w)"
  define rest where "rest = take j ?d @ drop (Suc j) ?d"
  have n: "length (basicIndices w ?d) = 2" using two by (simp add: basicIndices_length)
  then have ne: "basicIndices w ?d \<noteq> []" by auto
  note s = playCoachWhistle_shape[OF t ph c ne, of j w1 rest, unfolded n, OF j_def w1_def rest_def]
  have p: "playCard player handIndex w = update (snd (playCoachWhistle player handIndex w))"
    using go cur c kind by (simp add: playCard_def Let_def s(3))
  have t1: "tape_ok w1" using t by (simp add: w1_def randomIndex_snd)
  have r1: "randomPos w1 = randomPos w + 1" "heap w1 = heap w" "dispatched w1 = dispatched w"
    by (simp_all add: w1_def randomIndex_snd)
  have lr: "length rest = 3" using s(1) four by (simp add: rest_def)
  have m: "mset (fst (shuffle rest w1)) = mset ?d - {#?d ! j#}"
    using shuffle_mset[OF t1, of rest] mset_without_nth[OF s(1)] by (simp add: rest_def)
  have 1: "hand (players (playCard player handIndex w) player)
              = take (nat handIndex) (hand (players w player))
                @ drop (Suc (nat handIndex)) (hand (players w player)) @ [?d ! j]"
    "deck (players (playCard player handIndex w) player) = fst (shuffle rest w1)"
    "heap (playCard player handIndex w) = heap w"
    "dispatched (playCard player handIndex w) = dispatched w @ [GameStateUpdated]"
    "randomPos (playCard player handIndex w) = randomPos w + 3"
    by (simp_all add: p s(3) update_def notify_def setPlayer_def shuffle_snd r1 lr)
  have "size (mset (fst (shuffle rest w1))) = size (mset rest)"
    using shuffle_mset[OF t1, of rest] by simp
  then have l: "length (fst (shuffle rest w1)) = 3" using lr by simp
  have b: "?d ! j \<in> set ?d" using s(1) by simp
  from one_basic_left[OF m b, of "\<lambda>r. isBasic (heap w r)"] s(2) two
  have o: "length (filter (\<lambda>r. isBasic (heap w r)) (fst (shuffle rest w1))) = 1" by simp
  from s(1) four have "j < 4" by simp
  with s(2) 1 m l o show ?thesis
    by (simp add: Let_def j_def[symmetric] rest_def[symmetric] w1_def[symmetric])
qed

lemma whistleBoard_fields:
  "phase whistleBoard = Playing" "currentPlayer whistleBoard = P1" "\<not> gameOver whistleBoard"
  "players whistleBoard P1 = \<lparr> deck = [0, 1, 2, 3], hand = [4], active = None,
           bench = [None, None, None], points = 0, hasPlayedSupporter = False \<rparr>"
  "heap whistleBoard = whistleHeap" "dispatched whistleBoard = []"
  "tape_ok whistleBoard"
  by (simp_all add: whistleBoard_def tape_ok_def)

lemma whistleHeap_cards:
  "whistleHeap 0 = cardOf ''base-001'' 0" "whistleHeap 1 = cardOf ''base-003'' 1"
  "whistleHeap (Suc 0) = cardOf ''base-003'' 1"
  "whistleHeap 2 = cardOf ''base-002'' 2" "whistleHeap 3 = cardOf ''base-004'' 3"
  "whistleHeap 4 = cardOf ''base-007'' 4"
  by (simp_all add: whistleHeap_def)

lemma cardOf_004: "\<not> isBasic (cardOf ''base-004'' n)"
  by (simp add: cardOf_def CARD_DATA_def blank_def)

lemma whistle_draw:
  "randomIndex 2 whistleBoard = (0, whistleBoard\<lparr> randomPos := 1 \<rparr>)"
  "basicIndices whistleBoard [0, 1, 2, 3] = [0, 1]"
  "shuffle [1, 2, 3] (whistleBoard\<lparr> randomPos := 1 \<rparr>) = ([2, 3, 1], whistleBoard\<lparr> randomPos := 3 \<rparr>)"
proof -
  show "randomIndex 2 whistleBoard = (0, whistleBoard\<lparr> randomPos := 1 \<rparr>)"
    by (simp add: randomIndex_def Math_random_def whistleBoard_def)
  have u: "[0 ..< 4] = [0, 1, 2, Suc 2]" by (simp add: upt_rec)
  show "basicIndices whistleBoard [0, 1, 2, 3] = [0, 1]"
    by (simp add: basicIndices_def u whistleBoard_fields whistleHeap_cards cardOf_fields cardOf_004)
  show "shuffle [1, 2, 3] (whistleBoard\<lparr> randomPos := 1 \<rparr>) = ([2, 3, 1], whistleBoard\<lparr> randomPos := 3 \<rparr>)"
    by (simp add: shuffle_def numeral_2_eq_2 randomIndex_def Math_random_def whistleBoard_def)
qed

theorem coach_whistle_witness:
  "tape_ok whistleBoard \<and> at_index (hand (players whistleBoard P1)) 0 = Some 4
   \<and> id' (heap whistleBoard 4) = ''base-007''
   \<and> deck (players whistleBoard P1) = [0, 1, 2, 3]
   \<and> length (filter (\<lambda>r. isBasic (heap whistleBoard r)) (deck (players whistleBoard P1))) = 2
   \<and> randomTape whistleBoard = (\<lambda>_. 0)
   \<and> hand (players (playCard P1 0 whistleBoard) P1) = [0]
   \<and> deck (players (playCard P1 0 whistleBoard) P1) = [2, 3, 1]
   \<and> dispatched (playCard P1 0 whistleBoard) = [GameStateUpdated]"
proof -
  have h: "tape_ok whistleBoard" "phase whistleBoard = Playing" "currentPlayer whistleBoard = P1"
    "\<not> gameOver whistleBoard" "at_index (hand (players whistleBoard P1)) 0 = Some 4"
    "\<not> isSupporter (heap whistleBoard 4)" "id' (heap whistleBoard 4) = ''base-007''"
    "length (deck (players whistleBoard P1)) = 4"
    "length (filter (\<lambda>r. isBasic (heap whistleBoard r)) (deck (players whistleBoard P1))) = 2"
    by (simp_all add: whistleBoard_fields at_index_def whistleHeap_cards cardOf_fields cardOf_004)
  have k: "deck (players whistleBoard P1) = [0, 1, 2, 3]" "hand (players whistleBoard P1) = [4]"
    "dispatched whistleBoard = []" "randomTape whistleBoard = (\<lambda>_. 0)"
    by (simp_all add: whistleBoard_def)
  note s = coach_whistle[OF h, unfolded Let_def k whistle_draw fst_conv snd_conv nth_Cons_0 take_0
      drop_Suc_Cons drop_0 append_Nil]
  from s
  have "hand (players (playCard P1 0 whistleBoard) P1) = [0]
      \<and> deck (players (playCard P1 0 whistleBoard) P1) = [2, 3, 1]
      \<and> dispatched (playCard P1 0 whistleBoard) = [GameStateUpdated]"
    by simp
  with h(1,5,7,9) k(1,4) show ?thesis by simp
qed

section \<open>Card instances in the zones\<close>

lemma splice_mset:
  "mset (fst (splice xs s d items)) + mset (snd (splice xs s d items)) = mset xs + mset items"
proof -
  let ?k = "splice_start s (length xs)"
  let ?d = "min d (length xs - ?k)"
  have "mset (take ?d (drop ?k xs)) + mset (drop (?k + ?d) xs) = mset (drop ?k xs)"
    by (metis add.commute append_take_drop_id drop_drop mset_append)
  moreover have "mset (take ?k xs) + mset (drop ?k xs) = mset xs"
    by (metis append_take_drop_id mset_append)
  ultimately show ?thesis
    by (simp add: splice_def Let_def ac_simps)
qed

lemma splice_rest_mset:
  "mset (fst (splice_rest xs s)) + mset (snd (splice_rest xs s)) = mset xs"
  using splice_mset[of xs s "length xs" "[]"] by (simp add: splice_rest_def)

lemma splice_remove_subset: "mset (snd (splice xs s d [])) \<subseteq># mset xs"
  using splice_mset[of xs s d "[]"] by (metis add.right_neutral mset.simps(1) mset_subset_eq_add_right)

lemma slotRefs_simps [simp]:
  "slotRefs [] = []" "slotRefs (None # b) = slotRefs b" "slotRefs (Some r # b) = r # slotRefs b"
  by (simp_all add: slotRefs_def)

lemma slotRefs_update:
  "i < length b \<Longrightarrow>
   mset (slotRefs (b[i := s])) + mset (slotRefs [b ! i]) = mset (slotRefs b) + mset (slotRefs [s])"
proof (induction b arbitrary: i)
  case Nil
  then show ?case by simp
next
  case (Cons x b)
  show ?case
  proof (cases i)
    case 0
    then show ?thesis by (cases x; cases s) simp_all
  next
    case (Suc j)
    with Cons.prems have "j < length b" by simp
    from Cons.IH[OF this] Suc show ?thesis by (cases x) simp_all
  qed
qed

lemma zoneRefs_mset:
  "mset (zoneRefs p) = mset (deck p) + mset (hand p) + mset (slotRefs [active p]) + mset (slotRefs (bench p))"
  by (simp add: zoneRefs_def)

lemma allRefs_mset:
  "mset (allRefs w) = mset (zoneRefs (players w P1)) + mset (zoneRefs (players w P2))"
  by (simp add: allRefs_def)

lemma allRefs_update_subset:
  assumes "players w' = (players w)(i := p')" "mset (zoneRefs p') \<subseteq># mset (zoneRefs (players w i))"
  shows "mset (allRefs w') \<subseteq># mset (allRefs w)"
  using assms by (cases i) (simp_all add: allRefs_mset mset_subset_eq_mono_add_right_cancel)

lemma allRefs_update_same:
  assumes "players w' = (players w)(i := p')" "mset (zoneRefs p') = mset (zoneRefs (players w i))"
  shows "mset (allRefs w') = mset (allRefs w)"
  using assms by (cases i) (simp_all add: allRefs_mset)

lemma allRefs_players: "players w' = players w \<Longrightarrow> allRefs w' = allRefs w"
  by (simp add: allRefs_def)

lemma drawCards_fields:
  "phase (drawCards p n w) = phase w" "currentPlayer (drawCards p n w) = currentPlayer w"
  "gameOver (drawCards p n w) = gameOver w" "winner (drawCards p n w) = winner w"
  "turnCount (drawCards p n w) = turnCount w" "setupReady (drawCards p n w) = setupReady w"
  "heap (drawCards p n w) = heap w" "cardUidCounter (drawCards p n w) = cardUidCounter w"
  "dispatched (drawCards p n w) = dispatched w" "randomTape (drawCards p n w) = randomTape w"
  "randomPos (drawCards p n w) = randomPos w"
  "active (players (drawCards p n w) q) = active (players w q)"
  "bench (players (drawCards p n w) q) = bench (players w q)"
  "points (players (drawCards p n w) q) = points (players w q)"
  "hasPlayedSupporter (players (drawCards p n w) q) = hasPlayedSupporter (players w q)"
  by (simp_all add: drawCards_def Let_def setPlayer_fields split: prod.splits)

lemma drawCards_refs: "mset (allRefs (drawCards p n w)) = mset (allRefs w)"
proof -
  let ?pl = "players w p"
  let ?sp = "splice_rest (deck ?pl) (- int n)"
  have 1: "players (drawCards p n w) = (players w)(p := ?pl\<lparr> deck := snd ?sp, hand := hand ?pl @ fst ?sp \<rparr>)"
    by (simp add: drawCards_def Let_def setPlayer_fields split: prod.splits)
  have 2: "mset (zoneRefs (?pl\<lparr> deck := snd ?sp, hand := hand ?pl @ fst ?sp \<rparr>)) = mset (zoneRefs ?pl)"
    using splice_rest_mset[of "deck ?pl" "- int n"] by (simp add: zoneRefs_mset ac_simps)
  show ?thesis by (rule allRefs_update_same[OF 1 2])
qed

section \<open>What the operations leave alone\<close>

lemma quiet_refl [simp]: "quiet w w"
  by (simp add: quiet_def)

lemma quiet_trans: "quiet w w' \<Longrightarrow> quiet w' w'' \<Longrightarrow> quiet w w''"
  by (simp add: quiet_def)

lemma shuffleD: "shuffle xs w = (d, w') \<Longrightarrow> w' = w\<lparr> randomPos := randomPos w + (length xs - 1) \<rparr>"
  using shuffle_snd[of xs w] by simp

lemma randomIndexD: "randomIndex n w = (k, w') \<Longrightarrow> w' = w\<lparr> randomPos := randomPos w + 1 \<rparr>"
  using randomIndex_snd[of n w] by simp

lemma quiet_update [simp]: "quiet w (update w')  = quiet w w'"
  by (simp add: quiet_def update_def notify_def)

lemma quiet_drawCards: "quiet w (drawCards p n w)"
  by (simp add: quiet_def drawCards_fields)

lemma playSupporter_quiet: "quiet w (snd (playSupporter player i w))"
  by (simp add: playSupporter_def Let_def quiet_def setPlayer_fields drawCards_fields split: prod.splits)

lemma playCoachWhistle_quiet: "quiet w (snd (playCoachWhistle player i w))"
  by (auto simp: playCoachWhistle_def Let_def quiet_def setPlayer_fields split: prod.splits
      dest!: shuffleD randomIndexD)

lemma playBasic_quiet: "quiet w (snd (playBasic player i w))"
  by (simp add: playBasic_def Let_def quiet_def setPlayer_fields split: prod.splits list.splits option.splits)

lemma playCard_cases:
  "\<exists>w'. (w' = w \<or> w' = snd (playSupporter player i w) \<or> w' = snd (playCoachWhistle player i w)
          \<or> w' = snd (playBasic player i w))
        \<and> (playCard player i w = w' \<or> playCard player i w = update w')"
proof (cases "gameOver w \<or> (phase w = Playing \<and> currentPlayer w \<noteq> player)
              \<or> at_index (hand (players w player)) i = None")
  case True
  then have "playCard player i w = w" by (auto simp: playCard_def)
  then show ?thesis by (intro exI[of _ w]) simp
next
  case False
  then obtain c where c: "at_index (hand (players w player)) i = Some c" by auto
  let ?r = "if isSupporter (heap w c) then playSupporter player i w
            else if id' (heap w c) = ''base-007'' then playCoachWhistle player i w
            else if id' (heap w c) = ''base-008'' then (False, w)
            else if isBasic (heap w c) then playBasic player i w
            else (False, w)"
  have g: "\<not> (gameOver w \<or> (phase w = Playing \<and> currentPlayer w \<noteq> player))"
    using False by blast
  have "playCard player i w = (if fst ?r then update (snd ?r) else snd ?r)"
    unfolding playCard_def by (simp only: g if_False c option.case Let_def case_prod_beta)
  then show ?thesis by (intro exI[of _ "snd ?r"]) auto
qed

lemma playCard_quiet: "quiet w (playCard player i w)"
  using playCard_cases[of w player i] playSupporter_quiet[of w player i]
    playCoachWhistle_quiet[of w player i] playBasic_quiet[of w player i]
  by auto

lemma performEvolution_quiet: "quiet w (performEvolution player e target t w)"
  by (simp add: performEvolution_def Let_def quiet_def setPlayer_fields update_def notify_def)

lemma quiet_setPlayer_hand: "quiet w (setPlayer player ((players w player)\<lparr> hand := h \<rparr>) w)"
  by (simp add: quiet_def setPlayer_fields)

lemma evolve_quiet: "quiet w (evolve player h t w)"
  using evolve_cases[of player h t w] quiet_trans[OF quiet_setPlayer_hand performEvolution_quiet]
  by auto

lemma nugget_quiet: "quiet w (snd (playChickenNugget player h t w))"
  using nugget_cases[of player h t w] quiet_trans[OF quiet_setPlayer_hand performEvolution_quiet]
  by auto

lemma promote_quiet: "quiet w (promote player b w)"
  by (simp add: promote_def Let_def quiet_def setPlayer_fields update_def notify_def split: prod.splits)

lemma retreat_quiet: "quiet w (retreat player b w)"
  by (simp add: retreat_def Let_def quiet_def setPlayer_fields update_def notify_def)

section \<open>No operation duplicates a card instance\<close>

lemma distinct_subset_mset:
  assumes "distinct ys" "mset xs \<subseteq># mset ys"
  shows "distinct xs"
proof -
  have "count (mset xs) a = (if a \<in> set xs then 1 else 0)" for a
  proof -
    have "count (mset xs) a \<le> count (mset ys) a"
      using assms(2) by (rule mset_subset_eq_count)
    moreover have "count (mset ys) a \<le> 1"
      using assms(1) by (simp add: distinct_count_atmost_1)
    ultimately have le: "count (mset xs) a \<le> 1" by simp
    show ?thesis
    proof (cases "a \<in> set xs")
      case True
      then have "0 < count (mset xs) a" by (rule count_mset_gt_0)
      with le have "count (mset xs) a = 1" by arith
      with True show ?thesis by (simp only: if_True)
    next
      case False
      then show ?thesis by (simp add: count_mset_0_iff)
    qed
  qed
  then show ?thesis by (simp add: distinct_count_atmost_1)
qed

lemma wellFormed_subset:
  assumes "wellFormed w" "mset (allRefs w') \<subseteq># mset (allRefs w)" "quiet w w'"
  shows "wellFormed w'"
proof -
  have s: "set (allRefs w') \<subseteq> set (allRefs w)"
    using set_mset_mono[OF assms(2)] by simp
  have 1: "distinct (allRefs w')"
    using assms(1,2) distinct_subset_mset[of "allRefs w" "allRefs w'"] by (simp add: wellFormed_def)
  have 2: "r < cardUidCounter w'" if "r \<in> set (allRefs w')" for r
  proof -
    from that s have "r \<in> set (allRefs w)" by blast
    with assms(1) have "r < cardUidCounter w" by (simp add: wellFormed_def)
    with assms(3) show ?thesis by (simp add: quiet_def)
  qed
  have 3: "tape_ok w'"
    using assms(1,3) by (simp add: wellFormed_def quiet_def tape_ok_def)
  from 1 2 3 show ?thesis by (simp add: wellFormed_def)
qed

lemma splice_one_removed:
  "fst (splice xs s 1 items) = [] \<or> (\<exists>c. fst (splice xs s 1 items) = [c])"
proof -
  have "length (fst (splice xs s 1 items)) \<le> 1"
    by (simp add: splice_def Let_def)
  then show ?thesis
    by (cases "fst (splice xs s 1 items)") auto
qed

lemma playSupporter_refs: "mset (allRefs (snd (playSupporter player i w))) \<subseteq># mset (allRefs w)"
proof (cases "phase w = Setup \<or> hasPlayedSupporter (players w player)")
  case True
  then show ?thesis by (auto simp: playSupporter_def)
next
  case False
  let ?w1 = "drawCards (currentPlayer w) 2 w"
  let ?p = "players ?w1 player"
  let ?rest = "snd (splice (hand ?p) i 1 [])"
  let ?w2 = "setPlayer player (?p\<lparr> hand := ?rest, hasPlayedSupporter := True \<rparr>) ?w1"
  have e: "snd (playSupporter player i w) = ?w2"
    using False by (simp add: playSupporter_def Let_def case_prod_beta)
  have z: "mset (zoneRefs (?p\<lparr> hand := ?rest, hasPlayedSupporter := True \<rparr>)) \<subseteq># mset (zoneRefs ?p)"
    using splice_remove_subset[of "hand ?p" i 1] by (simp add: zoneRefs_mset)
  have "mset (allRefs ?w2) \<subseteq># mset (allRefs ?w1)"
    by (rule allRefs_update_subset[OF _ z]) (simp add: setPlayer_fields)
  then show ?thesis by (simp add: e drawCards_refs)
qed

lemma playCoachWhistle_refs:
  assumes t: "tape_ok w"
  shows "mset (allRefs (snd (playCoachWhistle player i w))) \<subseteq># mset (allRefs w)"
proof (cases "phase w = Setup")
  case True
  then show ?thesis by (simp add: playCoachWhistle_def)
next
  case False
  let ?p = "players w player"
  let ?hand1 = "snd (splice (hand ?p) i 1 [])"
  let ?idxs = "basicIndices w (deck ?p)"
  define T where "T = (if length ?idxs > 0
                   then (let (k, w') = randomIndex (length ?idxs) w;
                             (drawn, rest) = splice (deck ?p) (int (?idxs ! k)) 1 []
                         in (?hand1 @ drawn, rest, w'))
                   else (?hand1, deck ?p, w))"
  define hand2 where "hand2 = fst T"
  define deck2 where "deck2 = fst (snd T)"
  define w2 where "w2 = snd (snd T)"
  have m: "mset hand2 + mset deck2 = mset ?hand1 + mset (deck ?p)"
    and w2: "w2 = w \<or> w2 = w\<lparr> randomPos := randomPos w + 1 \<rparr>"
  proof -
    show "mset hand2 + mset deck2 = mset ?hand1 + mset (deck ?p)"
    proof (cases "length ?idxs > 0")
      case True
      obtain k w' where r: "randomIndex (length ?idxs) w = (k, w')" by (cases "randomIndex (length ?idxs) w")
      let ?sp = "splice (deck ?p) (int (?idxs ! k)) 1 []"
      from True r have "hand2 = ?hand1 @ fst ?sp" "deck2 = snd ?sp"
        by (simp_all add: hand2_def deck2_def T_def case_prod_beta)
      then show ?thesis
        using splice_mset[of "deck ?p" "int (?idxs ! k)" 1 "[]"] by (simp add: ac_simps)
    next
      case False
      then show ?thesis by (simp add: hand2_def deck2_def T_def)
    qed
    show "w2 = w \<or> w2 = w\<lparr> randomPos := randomPos w + 1 \<rparr>"
    proof (cases "length ?idxs > 0")
      case True
      obtain k w' where r: "randomIndex (length ?idxs) w = (k, w')" by (cases "randomIndex (length ?idxs) w")
      from True r have "w2 = w'" by (simp add: w2_def T_def case_prod_beta)
      with randomIndexD[OF r] show ?thesis by simp
    next
      case False
      then show ?thesis by (simp add: w2_def T_def)
    qed
  qed
  have t2: "tape_ok w2" using w2 t by auto
  have p2: "players w2 = players w" using w2 by auto
  obtain d w3 where sh: "shuffle deck2 w2 = (d, w3)" by (cases "shuffle deck2 w2")
  have d: "mset d = mset deck2" using shuffle_mset[OF t2, of deck2] sh by simp
  have pw3: "players w3 = players w" using shuffleD[OF sh] p2 by simp
  let ?w' = "setPlayer player (?p\<lparr> hand := hand2, deck := d \<rparr>) w3"
  have "playCoachWhistle player i w =
          (True, setPlayer player (?p\<lparr> hand := fst T, deck := fst (shuffle (fst (snd T)) (snd (snd T))) \<rparr>)
                   (snd (shuffle (fst (snd T)) (snd (snd T)))))"
    using False unfolding playCoachWhistle_def T_def Let_def
    by (simp add: case_prod_beta)
  then have e: "snd (playCoachWhistle player i w) = ?w'"
    using sh by (simp add: hand2_def deck2_def w2_def)
  have z: "mset (zoneRefs (?p\<lparr> hand := hand2, deck := d \<rparr>)) \<subseteq># mset (zoneRefs (players w3 player))"
  proof -
    let ?X = "mset (slotRefs [active ?p]) + mset (slotRefs (bench ?p))"
    have "mset hand2 + mset d \<subseteq># mset (hand ?p) + mset (deck ?p)"
      using m d splice_remove_subset[of "hand ?p" i 1] by (simp add: mset_subset_eq_mono_add_right_cancel)
    then have "(mset hand2 + mset d) + ?X \<subseteq># (mset (hand ?p) + mset (deck ?p)) + ?X"
      by (simp only: mset_subset_eq_mono_add_right_cancel)
    then show ?thesis
      by (simp add: zoneRefs_mset pw3 ac_simps)
  qed
  have "mset (allRefs ?w') \<subseteq># mset (allRefs w3)"
    by (rule allRefs_update_subset[OF _ z]) (simp add: setPlayer_fields)
  then show ?thesis by (simp add: e allRefs_players[OF pw3])
qed

lemma zone_same:
  assumes "mset (deck p') + mset (hand p') + mset (slotRefs [active p']) + mset (slotRefs (bench p'))
         = mset (deck p) + mset (hand p) + mset (slotRefs [active p]) + mset (slotRefs (bench p))"
  shows "mset (zoneRefs p') = mset (zoneRefs p)"
  using assms by (simp add: zoneRefs_mset)

lemma playBasic_refs: "mset (allRefs (snd (playBasic player i w))) = mset (allRefs w)"
proof -
  let ?p = "players w player"
  let ?sp = "splice (hand ?p) i 1 []"
  from splice_one_removed[of "hand ?p" i "[]"] show ?thesis
  proof
    assume "fst ?sp = []"
    then show ?thesis by (simp add: playBasic_def Let_def case_prod_beta)
  next
    assume "\<exists>c. fst ?sp = [c]"
    then obtain c where c: "fst ?sp = [c]" by blast
    let ?rest = "snd ?sp"
    have h: "mset ?rest + {#c#} = mset (hand ?p)"
      using splice_mset[of "hand ?p" i 1 "[]"] c by (simp add: ac_simps)
    let ?w1 = "w\<lparr> heap := (heap w)(c := (heap w c)\<lparr> turnPlaced := Some (turnCount w) \<rparr>) \<rparr>"
    have a1: "allRefs ?w1 = allRefs w" by (rule allRefs_players) simp
    show ?thesis
    proof (cases "active ?p")
      case None
      let ?p' = "?p\<lparr> hand := ?rest, active := Some c \<rparr>"
      have e: "snd (playBasic player i w) = setPlayer player ?p' ?w1"
        using c None by (simp add: playBasic_def Let_def case_prod_beta)
      have z: "mset (zoneRefs ?p') = mset (zoneRefs (players ?w1 player))"
        using h None by (simp add: zoneRefs_mset ac_simps)
      show ?thesis
        unfolding e a1[symmetric]
        by (rule allRefs_update_same[OF _ z]) (simp add: setPlayer_fields)
    next
      case (Some a)
      show ?thesis
      proof (cases "indexOf (bench ?p) None")
        case None
        let ?p' = "?p\<lparr> hand := snd (splice ?rest i 0 [c]) \<rparr>"
        have e: "snd (playBasic player i w) = setPlayer player ?p' ?w1"
          using c Some None by (simp add: playBasic_def Let_def case_prod_beta)
        have "mset (snd (splice ?rest i 0 [c])) = mset ?rest + {#c#}"
          using splice_mset[of ?rest i 0 "[c]"] by (simp add: splice_def Let_def)
        then have z: "mset (zoneRefs ?p') = mset (zoneRefs (players ?w1 player))"
          using h by (simp add: zoneRefs_mset)
        show ?thesis
          unfolding e a1[symmetric]
          by (rule allRefs_update_same[OF _ z]) (simp add: setPlayer_fields)
      next
        case (Some idx)
        note idx = this
        from findIndex_Some[OF idx[unfolded indexOf_def]]
        have b: "idx < length (bench ?p)" "bench ?p ! idx = None" by simp_all
        let ?p' = "?p\<lparr> hand := ?rest, bench := (bench ?p)[idx := Some c] \<rparr>"
        have e: "snd (playBasic player i w) = setPlayer player ?p' ?w1"
          using c \<open>active ?p = Some a\<close> idx by (simp add: playBasic_def Let_def case_prod_beta)
        have "mset (slotRefs ((bench ?p)[idx := Some c])) = mset (slotRefs (bench ?p)) + {#c#}"
          using slotRefs_update[OF b(1), of "Some c"] b(2) by simp
        then have z: "mset (zoneRefs ?p') = mset (zoneRefs (players ?w1 player))"
          using h by (simp add: zoneRefs_mset ac_simps)
        show ?thesis
          unfolding e a1[symmetric]
          by (rule allRefs_update_same[OF _ z]) (simp add: setPlayer_fields)
      qed
    qed
  qed
qed

lemma update_refs [simp]: "allRefs (update w) = allRefs w"
  by (simp add: allRefs_def update_def notify_def)

lemma playCard_refs:
  assumes "tape_ok w"
  shows "mset (allRefs (playCard player i w)) \<subseteq># mset (allRefs w)"
  using playCard_cases[of w player i] playSupporter_refs[of player i w]
    playCoachWhistle_refs[OF assms, of player i] playBasic_refs[of player i w]
  by auto

lemma performEvolution_refs:
  assumes target: "boardCard (players w player) t = Some target"
  shows "mset (allRefs (performEvolution player e target t w)) + {#target#} = mset (allRefs w) + {#e#}"
proof -
  let ?w1 = "w\<lparr> heap := (heap w)(e := (heap w e)\<lparr> hp := Some (orZero (maxHp (heap w e))
                 - (orZero (maxHp (heap w target)) - orZero (hp (heap w target)))),
                 turnPlaced := Some (turnCount w) \<rparr>) \<rparr>"
  let ?p = "players w player"
  have a1: "allRefs ?w1 = allRefs w" by (rule allRefs_players) simp
  show ?thesis
  proof (cases "t = - 1")
    case True
    with target have act: "active ?p = Some target" by (simp add: boardCard_def)
    let ?p' = "?p\<lparr> active := Some e \<rparr>"
    have e: "performEvolution player e target t w = update (setPlayer player ?p' ?w1)"
      using True by (simp add: performEvolution_def Let_def)
    have z: "mset (zoneRefs ?p') + {#target#} = mset (zoneRefs ?p) + {#e#}"
      using act by (simp add: zoneRefs_mset)
    show ?thesis
      unfolding e using z
      by (cases player) (simp_all add: allRefs_mset setPlayer_fields ac_simps)
  next
    case False
    with target have s: "boardSlot (bench ?p) t = Some target" by (simp add: boardCard_def)
    then have r: "0 \<le> t" "t < int (length (bench ?p))" "bench ?p ! nat t = Some target"
      by (simp_all add: boardSlot_Some)
    let ?p' = "?p\<lparr> bench := (bench ?p)[nat t := Some e] \<rparr>"
    have e: "performEvolution player e target t w = update (setPlayer player ?p' ?w1)"
      using False r by (simp add: performEvolution_def Let_def set_index_def)
    have "mset (slotRefs ((bench ?p)[nat t := Some e])) + {#target#} = mset (slotRefs (bench ?p)) + {#e#}"
      using slotRefs_update[of "nat t" "bench ?p" "Some e"] r by simp
    then have z: "mset (zoneRefs ?p') + {#target#} = mset (zoneRefs ?p) + {#e#}"
      by (simp add: zoneRefs_mset ac_simps)
    show ?thesis
      unfolding e using z
      by (cases player) (simp_all add: allRefs_mset setPlayer_fields ac_simps)
  qed
qed

lemma hand_removed_refs:
  assumes "mset h' + {#e#} \<subseteq># mset (hand (players w player))"
  shows "mset (allRefs (setPlayer player ((players w player)\<lparr> hand := h' \<rparr>) w)) + {#e#} \<subseteq># mset (allRefs w)"
proof -
  let ?p = "players w player"
  let ?X = "mset (deck ?p) + mset (slotRefs [active ?p]) + mset (slotRefs (bench ?p))"
  have "(mset h' + {#e#}) + ?X \<subseteq># mset (hand ?p) + ?X"
    using assms by (simp only: mset_subset_eq_mono_add_right_cancel)
  then have z: "mset (zoneRefs (?p\<lparr> hand := h' \<rparr>)) + {#e#} \<subseteq># mset (zoneRefs ?p)"
    by (simp add: zoneRefs_mset ac_simps)
  show ?thesis
  proof (cases player)
    case P1
    have "(mset (zoneRefs (?p\<lparr> hand := h' \<rparr>)) + {#e#}) + mset (zoneRefs (players w P2))
            \<subseteq># mset (zoneRefs ?p) + mset (zoneRefs (players w P2))"
      using z by (simp only: mset_subset_eq_mono_add_right_cancel)
    with P1 show ?thesis by (simp add: allRefs_mset setPlayer_fields ac_simps)
  next
    case P2
    have "(mset (zoneRefs (?p\<lparr> hand := h' \<rparr>)) + {#e#}) + mset (zoneRefs (players w P1))
            \<subseteq># mset (zoneRefs ?p) + mset (zoneRefs (players w P1))"
      using z by (simp only: mset_subset_eq_mono_add_right_cancel)
    with P2 show ?thesis by (simp add: allRefs_mset setPlayer_fields ac_simps)
  qed
qed

lemma evolution_refs:
  assumes target: "boardCard (players w player) t = Some target"
    and h: "mset h' + {#e#} \<subseteq># mset (hand (players w player))"
  shows "mset (allRefs (performEvolution player e target t
                          (setPlayer player ((players w player)\<lparr> hand := h' \<rparr>) w)))
           \<subseteq># mset (allRefs w)"
proof -
  let ?w1 = "setPlayer player ((players w player)\<lparr> hand := h' \<rparr>) w"
  have t1: "boardCard (players ?w1 player) t = Some target"
    using target by (simp add: boardCard_def setPlayer_fields split: if_splits)
  have "mset (allRefs (performEvolution player e target t ?w1)) + {#target#} = mset (allRefs ?w1) + {#e#}"
    by (rule performEvolution_refs[OF t1])
  also have "\<dots> \<subseteq># mset (allRefs w)" by (rule hand_removed_refs[OF h])
  finally show ?thesis
    by (metis mset_subset_eq_add_left subset_mset.order_trans)
qed

lemma splice_one_mset:
  "0 \<le> i \<Longrightarrow> i < int (length xs) \<Longrightarrow> mset (snd (splice xs i 1 [])) + {#xs ! nat i#} = mset xs"
  using splice_mset[of xs i 1 "[]"] splice_one[of i xs] by (simp add: ac_simps)

lemma evolve_refs: "mset (allRefs (evolve player h t w)) \<subseteq># mset (allRefs w)"
  using evolve_cases[of player h t w]
proof
  assume "evolve player h t w = w"
  then show ?thesis by simp
next
  assume "\<exists>e target. boardCard (players w player) t = Some target
      \<and> at_index (hand (players w player)) h = Some e
      \<and> canAct player w \<and> 1 < turnCount w
      \<and> evolvesFrom (heap w e) = Some (id' (heap w target))
      \<and> orZero (turnPlaced (heap w target)) < turnCount w
      \<and> evolve player h t w =
          performEvolution player e target t
            (setPlayer player ((players w player)\<lparr> hand := snd (splice (hand (players w player)) h 1 []) \<rparr>) w)"
  then obtain e target where target: "boardCard (players w player) t = Some target"
    and e: "at_index (hand (players w player)) h = Some e"
    and eq: "evolve player h t w =
          performEvolution player e target t
            (setPlayer player ((players w player)\<lparr> hand := snd (splice (hand (players w player)) h 1 []) \<rparr>) w)"
    by blast
  from e have "mset (snd (splice (hand (players w player)) h 1 [])) + {#e#} = mset (hand (players w player))"
    using splice_one_mset[of h "hand (players w player)"] by (simp add: at_index_Some)
  then have "mset (snd (splice (hand (players w player)) h 1 [])) + {#e#} \<subseteq># mset (hand (players w player))"
    by simp
  from evolution_refs[OF target this] show ?thesis by (simp only: eq)
qed

lemma nugget_shape:
  "playChickenNugget player h t w = (False, w) \<or>
   (\<exists>target k. boardCard (players w player) t = Some target
      \<and> findIndex (\<lambda>c i. int i \<noteq> h \<and> evolvesFromBasic (heap w c) = Some (id' (heap w target)))
           0 (hand (players w player)) = Some k
      \<and> playChickenNugget player h t w =
          (True, performEvolution player (hand (players w player) ! k) target t
                   (setPlayer player ((players w player)\<lparr> hand :=
                      snd (splice (snd (splice (hand (players w player)) (max h (int k)) 1 []))
                             (min h (int k)) 1 []) \<rparr>) w)))"
  by (auto simp: playChickenNugget_def Let_def split: option.splits)

lemma splice_keeps_front:
  assumes "int k < s" "k < length xs"
  shows "k < length (snd (splice xs s d [])) \<and> snd (splice xs s d []) ! k = xs ! k"
proof -
  let ?kk = "splice_start s (length xs)"
  have kk: "k < ?kk" "?kk \<le> length xs" using assms by (auto simp: splice_start_def)
  then show ?thesis
    by (simp add: splice_def Let_def nth_append)
qed

lemma nugget_hand:
  assumes k: "k < length xs" and ne: "int k \<noteq> h"
  shows "mset (snd (splice (snd (splice xs (max h (int k)) 1 [])) (min h (int k)) 1 [])) + {#xs ! k#}
           \<subseteq># mset xs"
proof (cases "h < int k")
  case True
  let ?h1 = "snd (splice xs (int k) 1 [])"
  have 1: "mset ?h1 + {#xs ! k#} = mset xs"
    using splice_one_mset[of "int k" xs] k by simp
  have "mset (snd (splice ?h1 h 1 [])) \<subseteq># mset ?h1" by (rule splice_remove_subset)
  then have "mset (snd (splice ?h1 h 1 [])) + {#xs ! k#} \<subseteq># mset ?h1 + {#xs ! k#}"
    by (simp only: mset_subset_eq_mono_add_right_cancel)
  with 1 True show ?thesis by (simp add: max_def min_def)
next
  case False
  with ne have lt: "int k < h" by simp
  let ?h1 = "snd (splice xs h 1 [])"
  from splice_keeps_front[OF lt k, of 1] have f: "k < length ?h1" "?h1 ! k = xs ! k" by simp_all
  have "mset (snd (splice ?h1 (int k) 1 [])) + {#?h1 ! nat (int k)#} = mset ?h1"
    using f(1) by (intro splice_one_mset) simp_all
  then have "mset (snd (splice ?h1 (int k) 1 [])) + {#xs ! k#} = mset ?h1"
    using f(2) by simp
  moreover have "mset ?h1 \<subseteq># mset xs" by (rule splice_remove_subset)
  ultimately show ?thesis using lt by (simp add: max_def min_def)
qed

lemma nugget_refs: "mset (allRefs (snd (playChickenNugget player h t w))) \<subseteq># mset (allRefs w)"
  using nugget_shape[of player h t w]
proof
  assume "playChickenNugget player h t w = (False, w)"
  then show ?thesis by simp
next
  let ?hand = "hand (players w player)"
  assume "\<exists>target k. boardCard (players w player) t = Some target
      \<and> findIndex (\<lambda>c i. int i \<noteq> h \<and> evolvesFromBasic (heap w c) = Some (id' (heap w target)))
           0 ?hand = Some k
      \<and> playChickenNugget player h t w =
          (True, performEvolution player (?hand ! k) target t
                   (setPlayer player ((players w player)\<lparr> hand :=
                      snd (splice (snd (splice ?hand (max h (int k)) 1 []))
                             (min h (int k)) 1 []) \<rparr>) w))"
  then obtain target k where target: "boardCard (players w player) t = Some target"
    and f: "findIndex (\<lambda>c i. int i \<noteq> h \<and> evolvesFromBasic (heap w c) = Some (id' (heap w target)))
           0 ?hand = Some k"
    and eq: "playChickenNugget player h t w =
          (True, performEvolution player (?hand ! k) target t
                   (setPlayer player ((players w player)\<lparr> hand :=
                      snd (splice (snd (splice ?hand (max h (int k)) 1 []))
                             (min h (int k)) 1 []) \<rparr>) w))"
    by blast
  from findIndex_Some[OF f] have k: "k < length ?hand" "int k \<noteq> h" by simp_all
  from evolution_refs[OF target nugget_hand[OF k]] show ?thesis by (simp only: eq snd_conv)
qed

lemma splice_replace:
  "0 \<le> i \<Longrightarrow> i < int (length xs) \<Longrightarrow> splice xs i 1 [v] = ([xs ! nat i], xs[nat i := v])"
proof -
  assume a: "0 \<le> i" "i < int (length xs)"
  then have k: "splice_start i (length xs) = nat i" "nat i < length xs"
    by (auto simp: splice_start_def)
  have 1: "take 1 (drop (nat i) xs) = [xs ! nat i]"
    using k(2) by (simp add: take_Suc_conv_app_nth Cons_nth_drop_Suc[symmetric])
  have 2: "min 1 (length xs - nat i) = 1" using k(2) by simp
  have 3: "take (nat i) xs @ [v] @ drop (nat i + 1) xs = xs[nat i := v]"
    using k(2) by (simp add: upd_conv_take_nth_drop)
  show ?thesis
    unfolding splice_def Let_def k(1) 2 1 3 ..
qed

lemma promote_refs: "mset (allRefs (promote player b w)) = mset (allRefs w)"
proof (cases "gameOver w \<or> active (players w player) \<noteq> None \<or> boardSlot (bench (players w player)) b = None")
  case True
  then show ?thesis by (auto simp: promote_def Let_def)
next
  case False
  let ?p = "players w player"
  from False obtain r where r: "boardSlot (bench ?p) b = Some r" by auto
  then have i: "0 \<le> b" "b < int (length (bench ?p))" "bench ?p ! nat b = Some r"
    by (simp_all add: boardSlot_Some)
  let ?p' = "?p\<lparr> active := Some r, bench := (bench ?p)[nat b := None] \<rparr>"
  have e: "promote player b w = update (setPlayer player ?p' w)"
    using False splice_replace[OF i(1,2), of None] i(3) r
    by (simp add: promote_def Let_def)
  have "mset (slotRefs ((bench ?p)[nat b := None])) + {#r#} = mset (slotRefs (bench ?p))"
    using slotRefs_update[of "nat b" "bench ?p" None] i by simp
  then have z: "mset (zoneRefs ?p') = mset (zoneRefs ?p)"
    using False by (simp add: zoneRefs_mset ac_simps)
  show ?thesis
    unfolding e update_refs
    by (rule allRefs_update_same[OF _ z]) (simp add: setPlayer_fields)
qed

lemma retreat_refs: "mset (allRefs (retreat player b w)) = mset (allRefs w)"
proof (cases "\<not> canAct player w \<or> active (players w player) = None \<or> boardSlot (bench (players w player)) b = None")
  case True
  then show ?thesis by (auto simp: retreat_def Let_def)
next
  case False
  let ?p = "players w player"
  from False obtain r a where r: "boardSlot (bench ?p) b = Some r" and a: "active ?p = Some a" by auto
  from r have i: "0 \<le> b" "b < int (length (bench ?p))" "bench ?p ! nat b = Some r"
    by (simp_all add: boardSlot_Some)
  let ?p' = "?p\<lparr> active := Some r, bench := (bench ?p)[nat b := Some a] \<rparr>"
  have e: "retreat player b w = update (setPlayer player ?p' w)"
    using False r a i by (simp add: retreat_def Let_def set_index_def)
  have "mset (slotRefs ((bench ?p)[nat b := Some a])) + {#r#} = mset (slotRefs (bench ?p)) + {#a#}"
    using slotRefs_update[of "nat b" "bench ?p" "Some a"] i by simp
  then have z: "mset (zoneRefs ?p') = mset (zoneRefs ?p)"
    using a by (simp add: zoneRefs_mset ac_simps)
  show ?thesis
    unfolding e update_refs
    by (rule allRefs_update_same[OF _ z]) (simp add: setPlayer_fields)
qed

section \<open>Turns, attacks and the end of a match\<close>

lemma quiet_advances: "quiet w w' \<Longrightarrow> advances w w'"
  by (simp add: quiet_def advances_def)

lemma advances_refl [simp]: "advances w w"
  by (simp add: advances_def)

lemma startTurn_more:
  "cardUidCounter (startTurn p w) = cardUidCounter w" "randomTape (startTurn p w) = randomTape w"
  "setupReady (startTurn p w) = setupReady w"
  by (simp_all add: startTurn_def Let_def setPlayer_fields update_def notify_def drawCards_fields)

lemma startTurn_advances: "advances w (startTurn p w)"
  by (simp add: advances_def startTurn_fields startTurn_more)

lemma startTurn_refs: "mset (allRefs (startTurn p w)) = mset (allRefs w)"
proof -
  let ?w1 = "w\<lparr> currentPlayer := p, turnCount := turnCount w + 1 \<rparr>"
  let ?w2 = "setPlayer p ((players ?w1 p)\<lparr> hasPlayedSupporter := False \<rparr>) ?w1"
  have z: "mset (zoneRefs ((players ?w1 p)\<lparr> hasPlayedSupporter := False \<rparr>)) = mset (zoneRefs (players ?w1 p))"
    by (simp add: zoneRefs_mset)
  have 2: "mset (allRefs ?w2) = mset (allRefs ?w1)"
    by (rule allRefs_update_same[OF _ z]) (simp add: setPlayer_fields)
  have 1: "allRefs ?w1 = allRefs w" by (rule allRefs_players) simp
  have "allRefs (startTurn p w) = allRefs (if turnCount ?w2 > 1 then drawCards p 1 ?w2 else ?w2)"
    by (rule allRefs_players) (simp add: startTurn_def Let_def update_def notify_def)
  then show ?thesis
    using 1 2 by (simp add: drawCards_refs)
qed

lemma endTurn_advances: "advances w (endTurn w)"
  by (simp add: endTurn_def startTurn_advances)

lemma endTurn_refs: "mset (allRefs (endTurn w)) = mset (allRefs w)"
  by (simp add: endTurn_def startTurn_refs)

lemma setPlayerReady_advances: "advances w (setPlayerReady p w)"
proof -
  have a: "advances w (startTurn P1 (w\<lparr> setupReady := r, phase := Playing \<rparr>))" if "phase w = Setup" for r
    using that by (simp add: advances_def startTurn_fields startTurn_more)
  have b: "advances w (update (w\<lparr> setupReady := r \<rparr>))" for r
    by (simp add: advances_def update_def notify_def)
  show ?thesis
    using a b by (auto simp: setPlayerReady_def Let_def intro: Phase.exhaust)
qed

lemma setPlayerReady_refs: "mset (allRefs (setPlayerReady p w)) = mset (allRefs w)"
proof -
  have 1: "allRefs (w\<lparr> setupReady := r, phase := Playing \<rparr>) = allRefs w" for r
    by (rule allRefs_players) simp
  have 2: "allRefs (w\<lparr> setupReady := r \<rparr>) = allRefs w" for r
    by (rule allRefs_players) simp
  show ?thesis
    by (simp add: setPlayerReady_def Let_def startTurn_refs 1 2)
qed

lemma attack_shape:
  "attack w = w
   \<or> (canAct (currentPlayer w) w \<and> (\<exists>h'. attack w = endTurn (w\<lparr> heap := h' \<rparr>)))
   \<or> (canAct (currentPlayer w) w \<and>
      (\<exists>h' pts w3. w3 = w\<lparr> heap := h',
                            players := (players w)
                              (currentPlayer w := (players w (currentPlayer w))\<lparr> points := pts \<rparr>,
                               getOpponentId (currentPlayer w) :=
                                 (players w (getOpponentId (currentPlayer w)))\<lparr> active := None \<rparr>) \<rparr>
         \<and> (attack w = endGame (currentPlayer w) w3 \<or> attack w = endTurn w3)))"
proof (cases "canAct (currentPlayer w) w")
  case False
  then show ?thesis by (simp add: attack_def)
next
  case True
  let ?me = "currentPlayer w"
  let ?opp = "getOpponentId ?me"
  show ?thesis
  proof (cases "active (players w ?me)")
    case None
    then show ?thesis using True by (simp add: attack_def Let_def)
  next
    case (Some a)
    note a = this
    show ?thesis
    proof (cases "active (players w ?opp)")
      case None
      then show ?thesis using True a by (simp add: attack_def Let_def)
    next
      case (Some d)
      let ?newHp = "orZero (hp (heap w d)) - orZero (attackDamage (heap w a))"
      let ?h' = "(heap w)(d := (heap w d)\<lparr> hp := Some ?newHp \<rparr>)"
      show ?thesis
      proof (cases "?newHp \<le> 0")
        case False
        then have "attack w = endTurn (w\<lparr> heap := ?h' \<rparr>)"
          using True a Some by (simp add: attack_def Let_def)
        with True show ?thesis by blast
      next
        case ko: True
        let ?pts = "points (players w ?me) + (if isEx (?h' d) then 2 else 1)"
        let ?w3 = "w\<lparr> heap := ?h',
                      players := (players w)(?me := (players w ?me)\<lparr> points := ?pts \<rparr>,
                                             ?opp := (players w ?opp)\<lparr> active := None \<rparr>) \<rparr>"
        have "attack w = endGame ?me ?w3 \<or> attack w = endTurn ?w3"
          using True a Some ko by (simp add: attack_def Let_def setPlayer_def)
        with True show ?thesis by blast
      qed
    qed
  qed
qed

lemma endGame_advances:
  "phase w = Playing \<Longrightarrow> \<not> gameOver w \<Longrightarrow> advances w (endGame p w)"
  by (simp add: advances_def endGame_def notify_def)

lemma advances_after:
  assumes "randomTape w1 = randomTape w" "cardUidCounter w1 = cardUidCounter w"
    "turnCount w1 = turnCount w" "phase w1 = phase w" "gameOver w1 = gameOver w" "winner w1 = winner w"
    "\<forall>q. hasPlayedSupporter (players w1 q) = hasPlayedSupporter (players w q)"
    "currentPlayer w1 = currentPlayer w"
    and "advances w1 w'"
  shows "advances w w'"
  using assms by (simp add: advances_def)

lemma attack_consider:
  obtains (same) "attack w = w"
  | (hit) h' where "attack w = endTurn (w\<lparr> heap := h' \<rparr>)"
  | (ko) h' pts w3 where "canAct (currentPlayer w) w"
      "w3 = w\<lparr> heap := h',
              players := (players w)
                (currentPlayer w := (players w (currentPlayer w))\<lparr> points := pts \<rparr>,
                 getOpponentId (currentPlayer w) :=
                   (players w (getOpponentId (currentPlayer w)))\<lparr> active := None \<rparr>) \<rparr>"
      "attack w = endGame (currentPlayer w) w3 \<or> attack w = endTurn w3"
  using attack_shape[of w] by blast

lemma attack_advances: "advances w (attack w)"
proof (cases w rule: attack_consider)
  case same
  then show ?thesis by simp
next
  case (hit h')
  then show ?thesis
    using advances_after[of "w\<lparr> heap := h' \<rparr>" w, OF _ _ _ _ _ _ _ _ endTurn_advances] by simp
next
  case (ko h' pts w3)
  have f: "randomTape w3 = randomTape w" "cardUidCounter w3 = cardUidCounter w"
    "turnCount w3 = turnCount w" "phase w3 = phase w" "gameOver w3 = gameOver w" "winner w3 = winner w"
    "\<forall>q. hasPlayedSupporter (players w3 q) = hasPlayedSupporter (players w q)"
    "currentPlayer w3 = currentPlayer w"
    by (simp_all add: ko(2))
  have p: "phase w3 = Playing" "\<not> gameOver w3" using ko(1) by (simp_all add: canAct_def ko(2))
  from ko(3) show ?thesis
  proof
    assume "attack w = endGame (currentPlayer w) w3"
    then show ?thesis using advances_after[OF f endGame_advances[OF p]] by simp
  next
    assume "attack w = endTurn w3"
    then show ?thesis using advances_after[OF f endTurn_advances] by simp
  qed
qed

lemma endGame_refs [simp]: "allRefs (endGame p w) = allRefs w"
  by (rule allRefs_players) (simp add: endGame_def notify_def)

lemma attack_refs: "mset (allRefs (attack w)) \<subseteq># mset (allRefs w)"
proof (cases w rule: attack_consider)
  case same
  then show ?thesis by simp
next
  case (hit h')
  moreover have "allRefs (w\<lparr> heap := h' \<rparr>) = allRefs w" by (rule allRefs_players) simp
  ultimately show ?thesis by (simp add: endTurn_refs)
next
  case (ko h' pts w3)
  let ?me = "currentPlayer w"
  let ?opp = "getOpponentId ?me"
  let ?wa = "w\<lparr> players := (players w)(?me := (players w ?me)\<lparr> points := pts \<rparr>) \<rparr>"
  have za: "mset (zoneRefs ((players w ?me)\<lparr> points := pts \<rparr>)) = mset (zoneRefs (players w ?me))"
    by (simp add: zoneRefs_mset)
  have a: "mset (allRefs ?wa) = mset (allRefs w)"
    by (rule allRefs_update_same[OF _ za]) simp
  have zb: "mset (zoneRefs ((players w ?opp)\<lparr> active := None \<rparr>)) \<subseteq># mset (zoneRefs (players ?wa ?opp))"
    by (cases "active (players w ?opp)") (simp_all add: zoneRefs_mset)
  have "mset (allRefs w3) \<subseteq># mset (allRefs ?wa)"
    by (rule allRefs_update_subset[OF _ zb]) (simp add: ko(2))
  with a have "mset (allRefs w3) \<subseteq># mset (allRefs w)" by simp
  with ko(3) show ?thesis by (auto simp: endTurn_refs)
qed

section \<open>The first deal keeps a state well formed\<close>

lemma createDeck_shape:
  assumes n: "cardUidCounter w = n"
  shows "createDeck DECK_CONFIG_0 w =
           Inr (fst (shuffle [n ..< n + 20] (w\<lparr> heap := created (deckIds DECK_CONFIG_0) n (heap w), cardUidCounter := n + 20 \<rparr>)),
                w\<lparr> heap := created (deckIds DECK_CONFIG_0) n (heap w), cardUidCounter := n + 20,
                   randomPos := randomPos w + 19 \<rparr>)"
proof -
  let ?w1 = "w\<lparr> heap := created (deckIds DECK_CONFIG_0) n (heap w), cardUidCounter := n + 20 \<rparr>"
  have 1: "createAll DECK_CONFIG_0 w = Inr ([n ..< n + 20], ?w1)"
    using createAll_ok[OF config_known n refl] by (simp add: length_deckIds_0)
  obtain d w2 where sh: "shuffle [n ..< n + 20] ?w1 = (d, w2)" by (cases "shuffle [n ..< n + 20] ?w1")
  from shuffleD[OF sh] have "w2 = ?w1\<lparr> randomPos := randomPos w + 19 \<rparr>" by simp
  with sh show ?thesis by (simp add: createDeck_def 1)
qed

lemma redeal_quiet: "quiet w (redeal p w)"
  by (simp add: quiet_def redeal_fields)

lemma redeal_refs:
  assumes "tape_ok w"
  shows "mset (allRefs (redeal p w)) = mset (allRefs w)"
proof -
  let ?p' = "players (redeal p w) p"
  have 1: "players (redeal p w) = (players w)(p := ?p')"
    by (rule PlayerId_funs; cases p; simp add: redeal_fields)
  have 2: "mset (zoneRefs ?p') = mset (zoneRefs (players w p))"
    using redeal_cards(1)[OF assms, of p] by (simp add: zoneRefs_mset redeal_fields ac_simps)
  show ?thesis by (rule allRefs_update_same[OF 1 2])
qed

lemma drawInitialHand_keeps:
  assumes r: "drawInitialHand p w = Some w'"
  shows "quiet w w'" and "wellFormed w \<Longrightarrow> wellFormed w'"
proof -
  let ?I = "\<lambda>v. quiet w v \<and> (wellFormed w \<longrightarrow> wellFormed v)"
  have step: "?I (redeal p v)" if v: "?I v" for v
  proof -
    have q: "quiet v (redeal p v)" by (rule redeal_quiet)
    have "wellFormed (redeal p v)" if "wellFormed v"
      using that redeal_refs[of v p] q by (intro wellFormed_subset[OF that _ q]) (simp_all add: wellFormed_def)
    with v q show ?thesis by (auto intro: quiet_trans)
  qed
  have "?I w" by simp
  from drawInitialHand_result[of p w w' ?I, OF r this step]
  obtain v where "?I v" "w' = redeal p v" by blast
  with step[of v] show "quiet w w'" and "wellFormed w \<Longrightarrow> wellFormed w'" by simp_all
qed

lemma createDeck_result:
  "\<exists>d w'. createDeck DECK_CONFIG_0 w = Inr (d, w') \<and> quiet w w' \<and> players w' = players w
     \<and> cardUidCounter w' = cardUidCounter w + 20
     \<and> (tape_ok w \<longrightarrow> mset d = mset [cardUidCounter w ..< cardUidCounter w + 20])"
proof -
  let ?n = "cardUidCounter w"
  let ?w1 = "w\<lparr> heap := created (deckIds DECK_CONFIG_0) ?n (heap w), cardUidCounter := ?n + 20 \<rparr>"
  let ?d = "fst (shuffle [?n ..< ?n + 20] ?w1)"
  let ?w' = "?w1\<lparr> randomPos := randomPos w + 19 \<rparr>"
  have 1: "createDeck DECK_CONFIG_0 w = Inr (?d, ?w')"
    using createDeck_shape[OF refl, of w] by simp
  have 2: "quiet w ?w'" by (simp add: quiet_def)
  have 3: "mset ?d = mset [?n ..< ?n + 20]" if "tape_ok w"
  proof -
    from that have "tape_ok ?w1" by (simp add: tape_ok_def)
    then show ?thesis by (rule shuffle_mset)
  qed
  have 4: "players ?w' = players w" "cardUidCounter ?w' = ?n + 20" by simp_all
  from 1 2 3 4 show ?thesis by blast
qed

lemma quiet_tape_ok: "quiet w w' \<Longrightarrow> tape_ok w' = tape_ok w"
  by (simp add: quiet_def tape_ok_def)

lemma quiet_notify [simp]: "quiet w (notify ev w') = quiet w w'"
  by (simp add: quiet_def notify_def)

lemma allRefs_notify [simp]: "allRefs (notify ev w) = allRefs w"
  by (simp add: allRefs_def notify_def)

lemma upt_forty: "[n ..< n + 40] = [n ..< n + 20] @ [n + 20 ..< n + 40]"
proof -
  have "[n ..< (n + 20) + 20] = [n ..< n + 20] @ [n + 20 ..< (n + 20) + 20]"
    by (rule upt_add_eq_append) simp
  moreover have "(n + 20) + 20 = n + 40" by simp
  ultimately show ?thesis by (simp only:)
qed

lemma new_decks_refs:
  assumes p: "players wA = (\<lambda>q. (players w q)\<lparr> deck := (if q = P1 then d1 else d2) \<rparr>)"
  shows "mset (allRefs wA) = mset d1 + mset d2
           + (mset (hand (players w P1)) + mset (slotRefs [active (players w P1)]) + mset (slotRefs (bench (players w P1)))
              + (mset (hand (players w P2)) + mset (slotRefs [active (players w P2)]) + mset (slotRefs (bench (players w P2)))))"
proof -
  have 1: "players wA P1 = (players w P1)\<lparr> deck := d1 \<rparr>" "players wA P2 = (players w P2)\<lparr> deck := d2 \<rparr>"
    by (simp_all add: p)
  show ?thesis
    unfolding allRefs_mset zoneRefs_mset 1 by (simp add: ac_simps)
qed


lemma new_decks_wellFormed:
  assumes wf: "wellFormed w" and n: "cardUidCounter w = n"
    and p: "players wA = (\<lambda>q. (players w q)\<lparr> deck := (if q = P1 then d1 else d2) \<rparr>)"
    and d1: "mset d1 = mset [n ..< n + 20]" and d2: "mset d2 = mset [n + 20 ..< n + 40]"
    and c: "cardUidCounter wA = n + 40" and t: "randomTape wA = randomTape w"
  shows "wellFormed wA"
proof -
  define L where "L = (hand (players w P1) @ slotRefs [active (players w P1)] @ slotRefs (bench (players w P1)))
     @ (hand (players w P2) @ slotRefs [active (players w P2)] @ slotRefs (bench (players w P2)))"
  have sub: "mset L \<subseteq># mset (allRefs w)"
  proof -
    have "mset (allRefs w) = (mset (deck (players w P1)) + mset (deck (players w P2))) + mset L"
      unfolding L_def allRefs_mset zoneRefs_mset by (simp only: mset_append ac_simps)
    then show ?thesis by (simp only: mset_subset_eq_add_right)
  qed
  from wf have "distinct (allRefs w)" by (simp add: wellFormed_def)
  then have dist: "distinct L" using sub by (rule distinct_subset_mset)
  have small: "r < n" if "r \<in> set L" for r
  proof -
    from that set_mset_mono[OF sub] have "r \<in> set (allRefs w)" by (simp only: set_mset_mset) (erule subsetD)
    with wf n show ?thesis by (simp add: wellFormed_def)
  qed
  have m: "mset (allRefs wA) = mset ([n ..< n + 40] @ L)"
    unfolding new_decks_refs[OF p] d1 d2 upt_forty[of n] L_def by (simp only: mset_append ac_simps)
  have disj: "set [n ..< n + 40] \<inter> set L = {}"
  proof (rule ccontr)
    assume "set [n ..< n + 40] \<inter> set L \<noteq> {}"
    then obtain r where 1: "r \<in> set [n ..< n + 40]" and 2: "r \<in> set L" by blast
    from 1 have "n \<le> r" by (simp only: set_upt atLeastLessThan_iff)
    with small[OF 2] show False by simp
  qed
  have "distinct ([n ..< n + 40] @ L)"
    using dist disj by (simp only: distinct_append distinct_upt simp_thms)
  with m have 1: "distinct (allRefs wA)"
    using mset_eq_imp_distinct_iff by blast
  have 2: "r < cardUidCounter wA" if "r \<in> set (allRefs wA)" for r
  proof -
    from that m have "r \<in> set ([n ..< n + 40] @ L)"
      using mset_eq_setD by blast
    then have "r \<in> set [n ..< n + 40] \<or> r \<in> set L" by (simp only: set_append Un_iff)
    then show ?thesis
    proof
      assume "r \<in> set [n ..< n + 40]"
      then have "r < n + 40" by (simp only: set_upt atLeastLessThan_iff)
      with c show ?thesis by simp
    next
      assume "r \<in> set L"
      from small[OF this] c show ?thesis by simp
    qed
  qed
  from wf t have "tape_ok wA" by (simp add: wellFormed_def tape_ok_def)
  with 1 2 show ?thesis by (simp add: wellFormed_def)
qed

lemma initializeGame_keeps:
  assumes r: "initializeGame w = Some (Inr w')"
  shows "quiet w w'" and "wellFormed w \<Longrightarrow> wellFormed w'"
proof -
  obtain d1 w1 where c1: "createDeck DECK_CONFIG_0 w = Inr (d1, w1)" and q1: "quiet w w1"
    and p1: "players w1 = players w" and n1: "cardUidCounter w1 = cardUidCounter w + 20"
    and m1: "tape_ok w \<longrightarrow> mset d1 = mset [cardUidCounter w ..< cardUidCounter w + 20]"
    using createDeck_result[of w] by blast
  define wp where "wp = setPlayer P1 ((players w1 P1)\<lparr> deck := d1 \<rparr>) w1"
  obtain d2 w2 where c2: "createDeck DECK_CONFIG_0 wp = Inr (d2, w2)" and q2: "quiet wp w2"
    and p2: "players w2 = players wp" and n2: "cardUidCounter w2 = cardUidCounter wp + 20"
    and m2: "tape_ok wp \<longrightarrow> mset d2 = mset [cardUidCounter wp ..< cardUidCounter wp + 20]"
    using createDeck_result[of wp] by blast
  define wA where "wA = setPlayer P2 ((players w2 P2)\<lparr> deck := d2 \<rparr>) w2"
  from r c1 c2 obtain w3 where h: "drawInitialHands wA = Some w3" and w': "w' = notify GameInitialized w3"
    by (auto simp add: initializeGame_def wp_def wA_def split: option.splits)
  from h obtain wB where h1: "drawInitialHand P1 wA = Some wB" and h2: "drawInitialHand P2 wB = Some w3"
    by (auto simp add: drawInitialHands_def split: option.splits)
  have qp: "quiet w wp" using q1 by (simp add: quiet_def wp_def setPlayer_fields)
  have qA: "quiet w wA" using qp q2 by (simp add: quiet_def wA_def setPlayer_fields)
  note k1 = drawInitialHand_keeps[OF h1] and k2 = drawInitialHand_keeps[OF h2]
  have "quiet w w3" by (rule quiet_trans[OF quiet_trans[OF qA k1(1)] k2(1)])
  then show "quiet w w'" by (simp add: w')
  show "wellFormed w'" if wf: "wellFormed w"
  proof -
    from wf have t: "tape_ok w" by (simp add: wellFormed_def)
    with qp have tp: "tape_ok wp" by (simp add: quiet_tape_ok)
    have cp: "cardUidCounter wp = cardUidCounter w + 20" by (simp add: wp_def setPlayer_fields n1)
    have pA: "players wA = (\<lambda>q. (players w q)\<lparr> deck := (if q = P1 then d1 else d2) \<rparr>)"
      by (rule PlayerId_funs) (simp_all add: wA_def wp_def setPlayer_fields p1 p2)
    have "wellFormed wA"
    proof (rule new_decks_wellFormed[OF wf refl pA])
      show "mset d1 = mset [cardUidCounter w ..< cardUidCounter w + 20]" using m1 t by simp
      show "mset d2 = mset [cardUidCounter w + 20 ..< cardUidCounter w + 40]"
      proof -
        have "cardUidCounter wp + 20 = cardUidCounter w + 40" by (simp add: cp)
        with m2 tp cp show ?thesis by (simp only:)
      qed
      show "cardUidCounter wA = cardUidCounter w + 40" by (simp add: wA_def setPlayer_fields cp n2)
      show "randomTape wA = randomTape w" using qA by (simp add: quiet_def)
    qed
    then have "wellFormed w3" using k1(2) k2(2) by blast
    then show ?thesis by (simp add: w' wellFormed_def allRefs_def notify_def tape_ok_def)
  qed
qed

section \<open>Invariants of the reachable states\<close>

lemma wellFormed_advances:
  assumes "wellFormed w" "mset (allRefs w') \<subseteq># mset (allRefs w)" "advances w w'"
  shows "wellFormed w'"
proof -
  have s: "set (allRefs w') \<subseteq> set (allRefs w)"
    using set_mset_mono[OF assms(2)] by simp
  from assms(1) have "distinct (allRefs w)" by (simp add: wellFormed_def)
  then have 1: "distinct (allRefs w')" using assms(2) by (rule distinct_subset_mset)
  have 2: "r < cardUidCounter w'" if "r \<in> set (allRefs w')" for r
  proof -
    from that s have "r \<in> set (allRefs w)" by blast
    with assms(1) have "r < cardUidCounter w" by (simp add: wellFormed_def)
    with assms(3) show ?thesis by (simp add: advances_def)
  qed
  have 3: "tape_ok w'"
    using assms(1,3) by (simp add: wellFormed_def advances_def tape_ok_def)
  from 1 2 3 show ?thesis by (simp add: wellFormed_def)
qed

lemma step_advances:
  assumes s: "step a w = Some w'"
  shows "advances w w'"
proof (cases a)
  case InitializeGame
  with s have "initializeGame w = Some (Inr w')"
    by (simp split: option.splits sum.splits)
  then show ?thesis by (intro quiet_advances initializeGame_keeps(1))
next
  case (SetPlayerReady p)
  with s show ?thesis by (auto simp add: setPlayerReady_advances)
next
  case EndTurn
  with s show ?thesis by (auto simp add: endTurn_advances)
next
  case (PlayCard p i)
  with s show ?thesis by (auto intro!: quiet_advances playCard_quiet)
next
  case (PlayChickenNugget p i t)
  with s show ?thesis by (auto intro!: quiet_advances nugget_quiet)
next
  case (Evolve p i t)
  with s show ?thesis by (auto intro!: quiet_advances evolve_quiet)
next
  case Attack
  with s show ?thesis by (auto simp add: attack_advances)
next
  case (Promote p i)
  with s show ?thesis by (auto intro!: quiet_advances promote_quiet)
next
  case (Retreat p i)
  with s show ?thesis by (auto intro!: quiet_advances retreat_quiet)
qed

lemma step_refs:
  assumes s: "step a w = Some w'" and t: "tape_ok w" and a: "a \<noteq> InitializeGame"
  shows "mset (allRefs w') \<subseteq># mset (allRefs w)"
proof (cases a)
  case InitializeGame
  with a show ?thesis by simp
next
  case (SetPlayerReady p)
  with s show ?thesis by (auto simp add: setPlayerReady_refs)
next
  case EndTurn
  with s show ?thesis by (auto simp add: endTurn_refs)
next
  case (PlayCard p i)
  with s playCard_refs[OF t, of p i] show ?thesis by auto
next
  case (PlayChickenNugget p i t)
  with s nugget_refs[of p i t w] show ?thesis by auto
next
  case (Evolve p i t)
  with s evolve_refs[of p i t w] show ?thesis by auto
next
  case Attack
  with s attack_refs[of w] show ?thesis by auto
next
  case (Promote p i)
  with s show ?thesis by (auto simp add: promote_refs)
next
  case (Retreat p i)
  with s show ?thesis by (auto simp add: retreat_refs)
qed

lemma step_wellFormed:
  assumes s: "step a w = Some w'" and wf: "wellFormed w"
  shows "wellFormed w'"
proof (cases "a = InitializeGame")
  case True
  with s have "initializeGame w = Some (Inr w')"
    by (simp split: option.splits sum.splits)
  then show ?thesis using wf by (rule initializeGame_keeps(2))
next
  case False
  from wf have "tape_ok w" by (simp add: wellFormed_def)
  from wf step_refs[OF s this False] step_advances[OF s] show ?thesis
    by (rule wellFormed_advances)
qed

lemma reachable_wellFormed: "reachable w \<Longrightarrow> wellFormed w"
proof (induction rule: reachable.induct)
  case (new tape h n evs pos)
  then show ?case
    by (simp add: wellFormed_def allRefs_def zoneRefs_def newGameState_def createPlayerState_def tape_ok_def
        numeral_3_eq_3)
next
  case (call w a w')
  then show ?case by (simp add: step_wellFormed)
qed

lemma reachable_over: "reachable w \<Longrightarrow> gameOver w \<Longrightarrow> phase w = Playing"
proof (induction rule: reachable.induct)
  case (new tape h n evs pos)
  then show ?case by (simp add: newGameState_def)
next
  case (call w a w')
  from step_advances[OF call.hyps(2)] call.IH call.prems show ?case
    by (auto simp add: advances_def)
qed

lemma run_turnCount: "run as w = Some w' \<Longrightarrow> turnCount w \<le> turnCount w'"
proof (induction as arbitrary: w)
  case Nil
  then show ?case by simp
next
  case (Cons a as)
  from Cons.prems obtain w1 where s: "step a w = Some w1" and r: "run as w1 = Some w'"
    by (auto split: option.splits)
  from step_advances[OF s] Cons.IH[OF r] show ?case by (simp add: advances_def)
qed

lemma run_supporter_flag:
  "run as w = Some w' \<Longrightarrow> turnCount w' = turnCount w \<Longrightarrow> hasPlayedSupporter (players w q)
   \<Longrightarrow> hasPlayedSupporter (players w' q)"
proof (induction as arbitrary: w)
  case Nil
  then show ?case by simp
next
  case (Cons a as)
  from Cons.prems(1) obtain w1 where s: "step a w = Some w1" and r: "run as w1 = Some w'"
    by (auto split: option.splits)
  from step_advances[OF s] have 1: "turnCount w \<le> turnCount w1" by (simp add: advances_def)
  from run_turnCount[OF r] Cons.prems(2) 1 have e: "turnCount w1 = turnCount w" "turnCount w' = turnCount w1"
    by simp_all
  from step_advances[OF s] e(1) Cons.prems(3) have "hasPlayedSupporter (players w1 q)"
    by (simp add: advances_def)
  from Cons.IH[OF r e(2) this] show ?case .
qed

lemma run_over:
  "run as w = Some w' \<Longrightarrow> gameOver w \<Longrightarrow> gameOver w' \<and> winner w' = winner w"
proof (induction as arbitrary: w)
  case Nil
  then show ?case by simp
next
  case (Cons a as)
  from Cons.prems(1) obtain w1 where s: "step a w = Some w1" and r: "run as w1 = Some w'"
    by (auto split: option.splits)
  from step_advances[OF s] Cons.prems(2) have 1: "gameOver w1" "winner w1 = winner w"
    by (auto simp add: advances_def)
  from Cons.IH[OF r 1(1)] 1(2) show ?case by simp
qed

section \<open>Game over\<close>

lemma over_no_op:
  assumes "gameOver w"
  shows "playCard player i w = w" "evolve player i t w = w"
    "playChickenNugget player i t w = (False, w)" "attack w = w" "promote player b w = w"
    "retreat player b w = w" "endTurn w = w"
    "phase w = Playing \<Longrightarrow> setPlayerReady player w = w"
proof -
  from assms have c: "\<not> canAct q w" for q by (simp add: canAct_def)
  from assms show "playCard player i w = w" by (simp add: playCard_def)
  from c show "evolve player i t w = w"
    by (simp add: evolve_def Let_def split: option.splits)
  from c show "playChickenNugget player i t w = (False, w)"
    by (simp add: playChickenNugget_def Let_def split: option.splits)
  from c show "attack w = w" by (simp add: attack_def)
  from assms show "promote player b w = w" by (simp add: promote_def Let_def)
  from c show "retreat player b w = w" by (simp add: retreat_def)
  from assms show "endTurn w = w" by (simp add: endTurn_def)
  show "setPlayerReady player w = w" if "phase w = Playing"
    using that by (simp add: setPlayerReady_def)
qed

text \<open>
  C5. Game over is terminal. In a state of a match in which \<open>gameOver\<close> is set, each of
  \<open>playCard\<close>, \<open>evolve\<close>, \<open>playChickenNugget\<close>, \<open>attack\<close>, \<open>promote\<close>, \<open>retreat\<close>, \<open>endTurn\<close>
  and \<open>setPlayerReady\<close> returns the state it was called in (\<open>playChickenNugget\<close> returns
  false), and whatever sequence of public calls follows, \<open>gameOver\<close> stays set and \<open>winner\<close>
  keeps its value.
\<close>

theorem game_over_is_terminal:
  assumes "reachable w" and "gameOver w"
  shows "playCard player i w = w \<and> evolve player i t w = w
    \<and> playChickenNugget player i t w = (False, w) \<and> attack w = w
    \<and> promote player b w = w \<and> retreat player b w = w \<and> endTurn w = w
    \<and> setPlayerReady player w = w
    \<and> (\<forall>as w'. run as w = Some w' \<longrightarrow> gameOver w' \<and> winner w' = winner w)"
proof -
  from assms have "phase w = Playing" by (rule reachable_over)
  with assms(2) show ?thesis
    by (simp add: over_no_op) (blast dest: run_over[OF _ assms(2)])
qed

theorem game_over_is_terminal_witness:
  "reachable wonOne \<and> gameOver wonOne \<and> winner wonOne = Some P1
   \<and> playCard P2 0 wonOne = wonOne \<and> evolve P2 0 (- 1) wonOne = wonOne
   \<and> playChickenNugget P2 0 (- 1) wonOne = (False, wonOne) \<and> attack wonOne = wonOne
   \<and> promote P2 0 wonOne = wonOne \<and> retreat P2 0 wonOne = wonOne \<and> endTurn wonOne = wonOne
   \<and> setPlayerReady P2 wonOne = wonOne
   \<and> run [Promote P2 0, EndTurn, Attack, PlayCard P2 0] wonOne = Some wonOne"
proof -
  have g: "gameOver wonOne" and v: "winner wonOne = Some P1" by (simp_all add: wonOne_def)
  note t = game_over_is_terminal[OF reachable_examples(5) g, of P2 0 "- 1" 0]
  from t have "run [Promote P2 0, EndTurn, Attack, PlayCard P2 0] wonOne = Some wonOne"
    by simp
  with t g v reachable_examples(5) show ?thesis by blast
qed

section \<open>Retreat and promotion\<close>

lemma slotRefs_mem: "k < length bs \<Longrightarrow> bs ! k = Some r \<Longrightarrow> r \<in> set (slotRefs bs)"
proof (induction bs arbitrary: k)
  case Nil
  then show ?case by simp
next
  case (Cons s bs)
  show ?case
  proof (cases k)
    case 0
    with Cons.prems show ?thesis by simp
  next
    case (Suc j)
    with Cons.prems Cons.IH[of j] have "r \<in> set (slotRefs bs)" by simp
    then show ?thesis by (cases s) simp_all
  qed
qed

lemma boardSlotD:
  assumes "boardSlot bs i = Some r"
  shows "0 \<le> i" "i < int (length bs)" "nat i < length bs" "bs ! nat i = Some r"
  using assms by (auto simp add: boardSlot_Some)

lemma active_not_benched:
  assumes wf: "wellFormed w" and a: "active (players w player) = Some a"
    and b: "boardSlot (bench (players w player)) i = Some b"
  shows "a \<noteq> b"
proof -
  let ?p = "players w player"
  from wf have "distinct (allRefs w)" by (simp add: wellFormed_def)
  then have "distinct (zoneRefs ?p)" by (cases player) (simp_all add: allRefs_def)
  then have "distinct (slotRefs [active ?p] @ slotRefs (bench ?p))"
    by (simp add: zoneRefs_def)
  with a have 1: "a \<notin> set (slotRefs (bench ?p))" by simp
  from boardSlotD(3,4)[OF b] have "b \<in> set (slotRefs (bench ?p))"
    by (rule slotRefs_mem)
  with 1 show ?thesis by blast
qed

lemma at_index_update:
  "at_index (xs[k := v]) j = (if j = int k \<and> k < length xs then Some v else at_index xs j)"
  by (auto simp add: at_index_def)

lemma retreat_swap:
  assumes c: "canAct player w" and a: "active (players w player) = Some a"
    and b: "boardSlot (bench (players w player)) i = Some b"
  shows "retreat player i w =
           update (setPlayer player ((players w player)\<lparr> active := Some b,
                     bench := (bench (players w player))[nat i := Some a] \<rparr>) w)"
  using c a boardSlotD(1,2)[OF b] by (simp add: retreat_def Let_def set_index_def b)

lemma promote_move:
  assumes c: "\<not> gameOver w" and a: "active (players w player) = None"
    and b: "boardSlot (bench (players w player)) i = Some b"
  shows "promote player i w =
           update (setPlayer player ((players w player)\<lparr> active := Some b,
                     bench := (bench (players w player))[nat i := None] \<rparr>) w)"
proof -
  note r = boardSlotD[OF b]
  have sp: "splice (bench (players w player)) i (Suc 0) [None]
              = ([Some b], (bench (players w player))[nat i := None])"
    using splice_replace[OF r(1,2), of None] r(4) by simp
  from c a show ?thesis
    by (simp add: promote_def Let_def sp b)
qed

text \<open>
  C9. Let bench slot \<open>i\<close> of the player hold the card \<open>b\<close>. In a state of a match, a retreat
  by the player who can act, with the card \<open>a\<close> active, makes \<open>b\<close> the active card and puts \<open>a\<close> in slot \<open>i\<close>; \<open>a\<close>
  and \<open>b\<close> are different card instances; the other bench slots, the current player, the turn
  counter, the phase, the result of the match, the cards and all of the opponent's state are
  as before, and so are the player's points, hand, deck and supporter flag. A promotion while
  the match is on, with no active card, makes \<open>b\<close> the active card and empties slot \<open>i\<close>, and
  changes nothing else of the board. So after either, the active slot is occupied and
  slot \<open>i\<close> does not hold the same card.
\<close>

theorem retreat_and_promote:
  assumes b: "boardSlot (bench (players w player)) i = Some b"
  shows "(reachable w \<and> canAct player w \<and> active (players w player) = Some a \<longrightarrow>
            active (players (retreat player i w) player) = Some b
          \<and> boardSlot (bench (players (retreat player i w) player)) i = Some a
          \<and> a \<noteq> b
          \<and> length (bench (players (retreat player i w) player)) = length (bench (players w player))
          \<and> (\<forall>j. j \<noteq> i \<longrightarrow> at_index (bench (players (retreat player i w) player)) j
                               = at_index (bench (players w player)) j)
          \<and> currentPlayer (retreat player i w) = currentPlayer w
          \<and> turnCount (retreat player i w) = turnCount w
          \<and> phase (retreat player i w) = phase w
          \<and> gameOver (retreat player i w) = gameOver w \<and> winner (retreat player i w) = winner w
          \<and> heap (retreat player i w) = heap w
          \<and> points (players (retreat player i w) player) = points (players w player)
          \<and> hand (players (retreat player i w) player) = hand (players w player)
          \<and> deck (players (retreat player i w) player) = deck (players w player)
          \<and> hasPlayedSupporter (players (retreat player i w) player) = hasPlayedSupporter (players w player)
          \<and> players (retreat player i w) (getOpponentId player) = players w (getOpponentId player)
          \<and> dispatched (retreat player i w) = dispatched w @ [GameStateUpdated])
       \<and> (\<not> gameOver w \<and> active (players w player) = None \<longrightarrow>
            active (players (promote player i w) player) = Some b
          \<and> boardSlot (bench (players (promote player i w) player)) i = None
          \<and> length (bench (players (promote player i w) player)) = length (bench (players w player))
          \<and> (\<forall>j. j \<noteq> i \<longrightarrow> at_index (bench (players (promote player i w) player)) j
                               = at_index (bench (players w player)) j)
          \<and> hand (players (promote player i w) player) = hand (players w player)
          \<and> deck (players (promote player i w) player) = deck (players w player)
          \<and> players (promote player i w) (getOpponentId player) = players w (getOpponentId player))"
proof (intro conjI impI; (elim conjE)?)
  note rng = boardSlotD(1,2,3)[OF b]
  have o: "getOpponentId player \<noteq> player" by (simp add: getOpponentId_def)
  {
    assume r: "reachable w" and c: "canAct player w" and a: "active (players w player) = Some a"
    note e = retreat_swap[OF c a b]
    show "active (players (retreat player i w) player) = Some b"
      by (simp add: e update_def notify_def setPlayer_def)
    show "boardSlot (bench (players (retreat player i w) player)) i = Some a"
      using rng by (simp add: e update_def notify_def setPlayer_def boardSlot_Some)
    from reachable_wellFormed[OF r] a b show "a \<noteq> b" by (rule active_not_benched)
    show "length (bench (players (retreat player i w) player)) = length (bench (players w player))"
      by (simp add: e update_def notify_def setPlayer_def)
    show "\<forall>j. j \<noteq> i \<longrightarrow> at_index (bench (players (retreat player i w) player)) j
                               = at_index (bench (players w player)) j"
      using rng by (auto simp add: e update_def notify_def setPlayer_def at_index_update)
    show "currentPlayer (retreat player i w) = currentPlayer w"
      "turnCount (retreat player i w) = turnCount w"
      "phase (retreat player i w) = phase w"
      "gameOver (retreat player i w) = gameOver w" "winner (retreat player i w) = winner w"
      "heap (retreat player i w) = heap w"
      "points (players (retreat player i w) player) = points (players w player)"
      "hand (players (retreat player i w) player) = hand (players w player)"
      "deck (players (retreat player i w) player) = deck (players w player)"
      "hasPlayedSupporter (players (retreat player i w) player) = hasPlayedSupporter (players w player)"
      "dispatched (retreat player i w) = dispatched w @ [GameStateUpdated]"
      by (simp_all add: e update_def notify_def setPlayer_def)
    show "players (retreat player i w) (getOpponentId player) = players w (getOpponentId player)"
      using o by (simp add: e update_def notify_def setPlayer_def)
  }
  {
    assume c: "\<not> gameOver w" and a: "active (players w player) = None"
    note e = promote_move[OF c a b]
    show "active (players (promote player i w) player) = Some b"
      by (simp add: e update_def notify_def setPlayer_def)
    show "boardSlot (bench (players (promote player i w) player)) i = None"
      using rng by (simp add: e update_def notify_def setPlayer_def boardSlot_def at_index_update)
    show "length (bench (players (promote player i w) player)) = length (bench (players w player))"
      by (simp add: e update_def notify_def setPlayer_def)
    show "\<forall>j. j \<noteq> i \<longrightarrow> at_index (bench (players (promote player i w) player)) j
                               = at_index (bench (players w player)) j"
      using rng by (auto simp add: e update_def notify_def setPlayer_def at_index_update)
    show "hand (players (promote player i w) player) = hand (players w player)"
      "deck (players (promote player i w) player) = deck (players w player)"
      by (simp_all add: e update_def notify_def setPlayer_def)
    show "players (promote player i w) (getOpponentId player) = players w (getOpponentId player)"
      using o by (simp add: e update_def notify_def setPlayer_def)
  }
qed


lemma attack_board:
  "\<not> gameOver (attack board)"
  "players (attack board) P2 = \<lparr> deck = [], hand = [], active = None,
     bench = [Some 7, None, None], points = 0, hasPlayedSupporter = False \<rparr>"
  by (simp_all add: attack_def canAct_def getOpponentId_def board_fields board_cards cardOf_fields
      orZero_def Let_def endTurn_def startTurn_def setPlayer_def drawCards_def splice_rest_def
      splice_def splice_start_def update_def notify_def)

theorem retreat_and_promote_witness:
  "reachable turnOne \<and> canAct P1 turnOne
   \<and> active (players turnOne P1) = Some 8 \<and> boardSlot (bench (players turnOne P1)) 0 = Some 2
   \<and> active (players (retreat P1 0 turnOne) P1) = Some 2
   \<and> bench (players (retreat P1 0 turnOne) P1) = [Some 8, None, None]
   \<and> currentPlayer (retreat P1 0 turnOne) = P1 \<and> turnCount (retreat P1 0 turnOne) = 1
   \<and> hand (players (retreat P1 0 turnOne) P1) = [15, 12, 19]
   \<and> \<not> gameOver (attack board) \<and> active (players (attack board) P2) = None
   \<and> boardSlot (bench (players (attack board) P2)) 0 = Some 7
   \<and> active (players (promote P2 0 (attack board)) P2) = Some 7
   \<and> bench (players (promote P2 0 (attack board)) P2) = [None, None, None]"
proof -
  have h: "boardSlot (bench (players turnOne P1)) 0 = Some 2" "canAct P1 turnOne"
    "active (players turnOne P1) = Some 8"
    by (simp_all add: turnOne_fields boardSlot_def at_index_def canAct_def)
  have k: "boardSlot (bench (players (attack board) P2)) 0 = Some 7"
    "active (players (attack board) P2) = None"
    by (simp_all add: attack_board boardSlot_def at_index_def)
  note r = retreat_and_promote[OF h(1), of 8] and p = retreat_and_promote[OF k(1), of 8]
  have 1: "bench (players (retreat P1 0 turnOne) P1) = [Some 8, None, None]"
    by (simp add: retreat_swap[OF h(2,3,1)] turnOne_fields update_def notify_def setPlayer_def)
  have 2: "bench (players (promote P2 0 (attack board)) P2) = [None, None, None]"
    by (simp add: promote_move[OF attack_board(1) k(2,1)] attack_board update_def notify_def setPlayer_def)
  from r reachable_examples(3) h have 3: "active (players (retreat P1 0 turnOne) P1) = Some 2"
    "currentPlayer (retreat P1 0 turnOne) = currentPlayer turnOne"
    "turnCount (retreat P1 0 turnOne) = turnCount turnOne"
    "hand (players (retreat P1 0 turnOne) P1) = hand (players turnOne P1)"
    by blast+
  from p attack_board(1) k have 4: "active (players (promote P2 0 (attack board)) P2) = Some 7"
    by blast
  from 1 2 3 4 h k attack_board(1) reachable_examples(3) show ?thesis
    by (simp add: turnOne_fields)
qed

section \<open>Supporter cards\<close>

lemma late_run: "run (replicate 28 EndTurn) turnOne = Some lateGame"
  by (simp add: eval_nat_numeral turnOne_def lateGame_def endTurn_def getOpponentId_def eval_defs)


lemma lateGame_fields:
  "phase lateGame = Playing" "currentPlayer lateGame = P1" "\<not> gameOver lateGame"
  "players lateGame P1 = \<lparr> deck = [0], hand = [15, 12, 19, 14, 13, 17, 11, 10, 9, 18, 7, 6, 5, 4, 3, 16, 1],
           active = Some 8, bench = [Some 2, None, None], points = 0, hasPlayedSupporter = False \<rparr>"
  "heap lateGame 15 = cardOf ''base-006'' 15"
  by (simp_all add: lateGame_def dealHeap_cards)

lemma reachable_lateGame: "reachable lateGame"
  using reachable_examples(3) late_run by (rule reachable_run)

lemma run_same_turn:
  "run as w = Some w' \<Longrightarrow> turnCount w' = turnCount w \<Longrightarrow> currentPlayer w' = currentPlayer w"
proof (induction as arbitrary: w)
  case Nil
  then show ?case by simp
next
  case (Cons a as)
  from Cons.prems(1) obtain w1 where s: "step a w = Some w1" and r: "run as w1 = Some w'"
    by (auto split: option.splits)
  from step_advances[OF s] have 1: "turnCount w \<le> turnCount w1" by (simp add: advances_def)
  from run_turnCount[OF r] Cons.prems(2) 1 have e: "turnCount w1 = turnCount w" "turnCount w' = turnCount w1"
    by simp_all
  from step_advances[OF s] e(1) have "currentPlayer w1 = currentPlayer w"
    by (simp add: advances_def)
  with Cons.IH[OF r e(2)] show ?case by simp
qed

lemma run_playing: "run as w = Some w' \<Longrightarrow> phase w = Playing \<Longrightarrow> phase w' = Playing"
proof (induction as arbitrary: w)
  case Nil
  then show ?case by simp
next
  case (Cons a as)
  from Cons.prems(1) obtain w1 where s: "step a w = Some w1" and r: "run as w1 = Some w'"
    by (auto split: option.splits)
  from step_advances[OF s] Cons.prems(2) have "phase w1 = Playing" by (auto simp add: advances_def)
  from Cons.IH[OF r this] show ?case .
qed

lemma supporter_rejected:
  assumes "at_index (hand (players w player)) i = Some c" "isSupporter (heap w c)"
    "phase w = Setup \<or> hasPlayedSupporter (players w player)"
  shows "playCard player i w = w"
  using assms by (auto simp add: playCard_def playSupporter_def)

lemma not_current_rejected:
  "phase w = Playing \<Longrightarrow> currentPlayer w \<noteq> player \<Longrightarrow> playCard player i w = w"
  by (simp add: playCard_def)

lemma draw_two: "splice_rest xs (- 2) = (drop (length xs - 2) xs, take (length xs - 2) xs)"
  using splice_rest_last[of 2 xs] by simp

lemma supporter_played:
  assumes c: "canAct player w" and h: "at_index (hand (players w player)) i = Some c"
    and s: "isSupporter (heap w c)" and f: "\<not> hasPlayedSupporter (players w player)"
  shows "playCard player i w =
     update (setPlayer player ((players w player)\<lparr>
        deck := take (length (deck (players w player)) - 2) (deck (players w player)),
        hand := take (nat i) (hand (players w player)) @ drop (Suc (nat i)) (hand (players w player))
                 @ drop (length (deck (players w player)) - 2) (deck (players w player)),
        hasPlayedSupporter := True \<rparr>) w)"
proof -
  let ?p = "players w player"
  let ?drawn = "drop (length (deck ?p) - 2) (deck ?p)"
  from h have r: "0 \<le> i" "i < int (length (hand ?p))" "nat i < length (hand ?p)"
    by (auto simp add: at_index_Some)
  from c have g: "\<not> gameOver w" "phase w = Playing" "currentPlayer w = player"
    by (simp_all add: canAct_def)
  have d: "drawCards player 2 w = setPlayer player (?p\<lparr> deck := take (length (deck ?p) - 2) (deck ?p),
             hand := hand ?p @ ?drawn \<rparr>) w"
    by (simp add: drawCards_def Let_def draw_two)
  have "i < int (length (hand ?p @ ?drawn))" using r(2) by simp
  from splice_one[OF r(1) this]
  have sp: "splice (hand ?p @ ?drawn) i (Suc 0) []
              = ([(hand ?p @ ?drawn) ! nat i], take (nat i) (hand ?p) @ drop (Suc (nat i)) (hand ?p) @ ?drawn)"
    using r(3) by simp
  have ps: "playSupporter player i w = (True, setPlayer player (?p\<lparr>
        deck := take (length (deck ?p) - 2) (deck ?p),
        hand := take (nat i) (hand ?p) @ drop (Suc (nat i)) (hand ?p) @ ?drawn,
        hasPlayedSupporter := True \<rparr>) w)"
    using g f by (simp add: playSupporter_def Let_def d setPlayer_def sp)
  show ?thesis
    using g h s by (simp add: playCard_def ps)
qed


lemma startTurn_flag:
  "\<not> hasPlayedSupporter (players (startTurn q w) q)"
  "hasPlayedSupporter (players (startTurn q w) (getOpponentId q)) = hasPlayedSupporter (players w (getOpponentId q))"
  by (simp_all add: startTurn_def Let_def setPlayer_def drawCards_def update_def notify_def
      getOpponentId_def split: prod.splits)

text \<open>
  C6. Let card \<open>c\<close> at index \<open>i\<close> of the player's hand be a supporter. In the setup phase, or
  when the player's \<open>hasPlayedSupporter\<close> flag is set, \<open>playCard\<close> returns the state unchanged,
  with no event. When the player can act and the flag is not set, \<open>playCard\<close> moves the last
  two cards of the deck (all of the deck, when it holds fewer than two) to the end of the hand,
  removes the supporter from the hand, sets the flag and dispatches one update; and in every
  state reached from there by public calls in which the turn counter is still the same, every
  play of a supporter card, by either player, returns the state unchanged. \<open>startTurn\<close> clears
  the flag of the player whose turn begins and leaves the flag of the opponent as it is, and
  while the turn counter stays the same a flag that is set stays set.
\<close>

theorem supporter_once_per_turn:
  "(at_index (hand (players w player)) i = Some c \<and> isSupporter (heap w c)
      \<and> (phase w = Setup \<or> hasPlayedSupporter (players w player))
      \<longrightarrow> playCard player i w = w)
   \<and> (at_index (hand (players w player)) i = Some c \<and> isSupporter (heap w c)
      \<and> canAct player w \<and> \<not> hasPlayedSupporter (players w player)
      \<longrightarrow> deck (players (playCard player i w) player)
            = take (length (deck (players w player)) - 2) (deck (players w player))
        \<and> hand (players (playCard player i w) player)
            = take (nat i) (hand (players w player)) @ drop (Suc (nat i)) (hand (players w player))
              @ drop (length (deck (players w player)) - 2) (deck (players w player))
        \<and> hasPlayedSupporter (players (playCard player i w) player)
        \<and> dispatched (playCard player i w) = dispatched w @ [GameStateUpdated]
        \<and> heap (playCard player i w) = heap w
        \<and> turnCount (playCard player i w) = turnCount w
        \<and> currentPlayer (playCard player i w) = currentPlayer w
        \<and> players (playCard player i w) (getOpponentId player) = players w (getOpponentId player)
        \<and> (\<forall>as w' q j d. run as (playCard player i w) = Some w' \<and> turnCount w' = turnCount w
               \<and> at_index (hand (players w' q)) j = Some d \<and> isSupporter (heap w' d)
               \<longrightarrow> playCard q j w' = w'))
   \<and> \<not> hasPlayedSupporter (players (startTurn q w) q)
   \<and> hasPlayedSupporter (players (startTurn q w) (getOpponentId q))
       = hasPlayedSupporter (players w (getOpponentId q))
   \<and> (\<forall>as w'. run as w = Some w' \<and> turnCount w' = turnCount w \<and> hasPlayedSupporter (players w q)
         \<longrightarrow> hasPlayedSupporter (players w' q))"
proof (intro conjI impI allI; (elim conjE)?)
  show "\<not> hasPlayedSupporter (players (startTurn q w) q)" by (rule startTurn_flag)
  show "hasPlayedSupporter (players (startTurn q w) (getOpponentId q))
          = hasPlayedSupporter (players w (getOpponentId q))" by (rule startTurn_flag)
  show "hasPlayedSupporter (players w' q)"
    if "run as w = Some w'" "turnCount w' = turnCount w" "hasPlayedSupporter (players w q)" for as w'
    using that by (rule run_supporter_flag)
  show "playCard player i w = w"
    if "at_index (hand (players w player)) i = Some c" "isSupporter (heap w c)"
      "phase w = Setup \<or> hasPlayedSupporter (players w player)"
    using that by (rule supporter_rejected)
  {
    assume h: "at_index (hand (players w player)) i = Some c" and s: "isSupporter (heap w c)"
      and c: "canAct player w" and f: "\<not> hasPlayedSupporter (players w player)"
    note e = supporter_played[OF c h s f]
    have o: "getOpponentId player \<noteq> player" by (simp add: getOpponentId_def)
    show 1: "deck (players (playCard player i w) player)
            = take (length (deck (players w player)) - 2) (deck (players w player))"
      "hand (players (playCard player i w) player)
            = take (nat i) (hand (players w player)) @ drop (Suc (nat i)) (hand (players w player))
              @ drop (length (deck (players w player)) - 2) (deck (players w player))"
      "hasPlayedSupporter (players (playCard player i w) player)"
      "dispatched (playCard player i w) = dispatched w @ [GameStateUpdated]"
      "heap (playCard player i w) = heap w"
      "turnCount (playCard player i w) = turnCount w"
      "currentPlayer (playCard player i w) = currentPlayer w"
      by (simp_all add: e update_def notify_def setPlayer_def)
    show "players (playCard player i w) (getOpponentId player) = players w (getOpponentId player)"
      using o by (simp add: e update_def notify_def setPlayer_def)
    from c have g: "phase w = Playing" "currentPlayer w = player"
      by (simp_all add: canAct_def)
    have ph: "phase (playCard player i w) = Playing" "currentPlayer w = player"
      using g(1) by (simp_all add: e update_def notify_def setPlayer_def g(2))
    show "playCard q j w' = w'"
      if r: "run as (playCard player i w) = Some w'" and t: "turnCount w' = turnCount w"
        and a: "at_index (hand (players w' q)) j = Some d" and u: "isSupporter (heap w' d)"
      for as w' q j d
    proof (cases "q = player")
      case True
      from t 1(6) have t': "turnCount w' = turnCount (playCard player i w)" by simp
      from run_supporter_flag[OF r t' 1(3)] True have "hasPlayedSupporter (players w' q)" by simp
      with a u show ?thesis by (intro supporter_rejected) simp_all
    next
      case False
      from t 1(6) have t': "turnCount w' = turnCount (playCard player i w)" by simp
      from run_same_turn[OF r t'] 1(7) ph(2) have "currentPlayer w' = player" by simp
      with False run_playing[OF r ph(1)] show ?thesis
        by (intro not_current_rejected) simp_all
    qed
  }
qed


lemma dealt_hand:
  "phase dealt = Setup" "hand (players dealt P1) = [15, 2, 12, 8, 19]" "heap dealt 15 = cardOf ''base-006'' 15"
  by (simp_all add: dealt_def dealHeap_cards)

lemma turnOne_plan: "heap turnOne 13 = cardOf ''base-006'' 13"
  by (simp add: turnOne_def dealHeap_at deckIds_0)

theorem supporter_once_per_turn_witness:
  "at_index (hand (players turnOne P1)) 0 = Some 15 \<and> isSupporter (heap turnOne 15)
   \<and> canAct P1 turnOne \<and> \<not> hasPlayedSupporter (players turnOne P1)
   \<and> deck (players turnOne P1) = [0, 1, 16, 3, 4, 5, 6, 7, 18, 9, 10, 11, 17, 13, 14]
   \<and> hand (players turnOne P1) = [15, 12, 19]
   \<and> deck (players (playCard P1 0 turnOne) P1) = [0, 1, 16, 3, 4, 5, 6, 7, 18, 9, 10, 11, 17]
   \<and> hand (players (playCard P1 0 turnOne) P1) = [12, 19, 13, 14]
   \<and> hasPlayedSupporter (players (playCard P1 0 turnOne) P1)
   \<and> dispatched (playCard P1 0 turnOne) = dispatched turnOne @ [GameStateUpdated]
   \<and> isSupporter (heap (playCard P1 0 turnOne) 13)
   \<and> playCard P1 2 (playCard P1 0 turnOne) = playCard P1 0 turnOne
   \<and> phase dealt = Setup \<and> at_index (hand (players dealt P1)) 0 = Some 15
   \<and> isSupporter (heap dealt 15) \<and> playCard P1 0 dealt = dealt"
proof -
  have h: "at_index (hand (players turnOne P1)) 0 = Some 15" "isSupporter (heap turnOne 15)"
    "canAct P1 turnOne" "\<not> hasPlayedSupporter (players turnOne P1)"
    by (simp_all add: turnOne_fields at_index_def canAct_def cardOf_fields)
  have k: "deck (players turnOne P1) = [0, 1, 16, 3, 4, 5, 6, 7, 18, 9, 10, 11, 17, 13, 14]"
    "hand (players turnOne P1) = [15, 12, 19]"
    by (simp_all add: turnOne_fields)
  have d: "phase dealt = Setup" "at_index (hand (players dealt P1)) 0 = Some 15"
    "isSupporter (heap dealt 15)"
    by (simp_all add: dealt_hand at_index_def cardOf_fields)
  let ?w1 = "playCard P1 0 turnOne"
  from supporter_once_per_turn[of turnOne P1 0 15 P1] h
  have b: "deck (players ?w1 P1)
            = take (length (deck (players turnOne P1)) - 2) (deck (players turnOne P1))"
    "hand (players ?w1 P1)
            = take (nat 0) (hand (players turnOne P1)) @ drop (Suc (nat 0)) (hand (players turnOne P1))
              @ drop (length (deck (players turnOne P1)) - 2) (deck (players turnOne P1))"
    "hasPlayedSupporter (players ?w1 P1)"
    "dispatched ?w1 = dispatched turnOne @ [GameStateUpdated]"
    "heap ?w1 = heap turnOne" "turnCount ?w1 = turnCount turnOne"
    and later: "\<forall>as w' q j d. run as ?w1 = Some w' \<and> turnCount w' = turnCount turnOne
               \<and> at_index (hand (players w' q)) j = Some d \<and> isSupporter (heap w' d)
               \<longrightarrow> playCard q j w' = w'"
    by blast+
  from b have a: "deck (players ?w1 P1) = [0, 1, 16, 3, 4, 5, 6, 7, 18, 9, 10, 11, 17]"
    "hand (players ?w1 P1) = [12, 19, 13, 14]"
    "hasPlayedSupporter (players ?w1 P1)"
    "dispatched ?w1 = dispatched turnOne @ [GameStateUpdated]"
    "heap ?w1 = heap turnOne" "turnCount ?w1 = turnCount turnOne"
    by (simp_all add: k)
  have s: "isSupporter (heap ?w1 13)" by (simp add: a(5) turnOne_plan cardOf_fields)
  have "run [] ?w1 = Some ?w1 \<and> turnCount ?w1 = turnCount turnOne
          \<and> at_index (hand (players ?w1 P1)) 2 = Some 13 \<and> isSupporter (heap ?w1 13)"
    using s by (simp add: a(2,6) at_index_def)
  with later have again: "playCard P1 2 ?w1 = ?w1" by blast
  from supporter_once_per_turn[of dealt P1 0 15] d have inSetup: "playCard P1 0 dealt = dealt"
    by simp
  from h k a(1-4) s again d inSetup show ?thesis by blast
qed

text \<open>
  A supporter play that succeeds and draws one card. In the match of \<open>turnOne\<close>, after 28
  calls of \<open>endTurn\<close>, player 1 is to act on turn 29 with the one-card deck \<open>[0]\<close> and the
  Panda's Plan (15) first in the hand. \<open>playCard(1, 0)\<close> sets the flag and dispatches the
  update, the supporter leaves the hand, and the hand gets the one card the deck held.
\<close>

theorem supporter_draws_one:
  "reachable lateGame \<and> canAct P1 lateGame
   \<and> at_index (hand (players lateGame P1)) 0 = Some 15 \<and> isSupporter (heap lateGame 15)
   \<and> \<not> hasPlayedSupporter (players lateGame P1)
   \<and> deck (players lateGame P1) = [0]
   \<and> hand (players lateGame P1) = [15, 12, 19, 14, 13, 17, 11, 10, 9, 18, 7, 6, 5, 4, 3, 16, 1]
   \<and> hasPlayedSupporter (players (playCard P1 0 lateGame) P1)
   \<and> dispatched (playCard P1 0 lateGame) = dispatched lateGame @ [GameStateUpdated]
   \<and> deck (players (playCard P1 0 lateGame) P1) = []
   \<and> hand (players (playCard P1 0 lateGame) P1)
       = [12, 19, 14, 13, 17, 11, 10, 9, 18, 7, 6, 5, 4, 3, 16, 1, 0]"
proof -
  have h: "canAct P1 lateGame" "at_index (hand (players lateGame P1)) 0 = Some 15"
    "isSupporter (heap lateGame 15)" "\<not> hasPlayedSupporter (players lateGame P1)"
    by (simp_all add: lateGame_fields at_index_def canAct_def cardOf_fields)
  have k: "deck (players lateGame P1) = [0]"
    "hand (players lateGame P1) = [15, 12, 19, 14, 13, 17, 11, 10, 9, 18, 7, 6, 5, 4, 3, 16, 1]"
    by (simp_all add: lateGame_fields)
  note e = supporter_played[OF h]
  have a: "hasPlayedSupporter (players (playCard P1 0 lateGame) P1)"
    "dispatched (playCard P1 0 lateGame) = dispatched lateGame @ [GameStateUpdated]"
    "deck (players (playCard P1 0 lateGame) P1) = []"
    "hand (players (playCard P1 0 lateGame) P1)
       = [12, 19, 14, 13, 17, 11, 10, 9, 18, 7, 6, 5, 4, 3, 16, 1, 0]"
    by (simp_all add: e k update_def notify_def setPlayer_def)
  from reachable_lateGame h k a show ?thesis by blast
qed

end
